theory Spec2Isabelle
  imports Main "HOL-Library.AList" "HOL-Library.Char_ord" "HOL-Library.List_Lexorder"
begin

section \<open>The configuration parser of Ambassador (ambassador/config.py)\<close>

text \<open>
  A shallow embedding of class \<^verbatim>\<open>Config\<close>: the object's instance variables are a record that
  every method takes and returns, a raised exception is the left summand of the result, the
  logger is a list of entries that grows at the end. Python dictionaries keep insertion order,
  so each one is an association list read with \<open>map_of\<close> and written with \<open>AList.update\<close>
  (replace in place, or append).
\<close>

subsection \<open>Values of a parsed document\<close>

text \<open>
  What YAML or JSON parsing yields. Floating-point numbers are left out: no operation of the
  parser computes with a number.
\<close>

datatype json =
    JNull
  | JBool bool
  | JInt int
  | JStr string
  | JList "json list"
  | JObj "(string \<times> json) list"

text \<open>Python's truth value of an object, as \<^verbatim>\<open>if x:\<close> tests it.\<close>

fun truthy :: "json \<Rightarrow> bool" where
  "truthy JNull = False"
| "truthy (JBool b) = b"
| "truthy (JInt i) = (i \<noteq> 0)"
| "truthy (JStr s) = (s \<noteq> [])"
| "truthy (JList xs) = (xs \<noteq> [])"
| "truthy (JObj kvs) = (kvs \<noteq> [])"

text \<open>\<^verbatim>\<open>not x\<close> for an attribute that holds a string or \<^verbatim>\<open>None\<close>.\<close>

definition truthy_str :: "string option \<Rightarrow> bool" where
  "truthy_str s = (case s of None \<Rightarrow> False | Some t \<Rightarrow> t \<noteq> [])"

subsection \<open>Strings\<close>

text \<open>\<^verbatim>\<open>s.startswith(p)\<close>\<close>

fun startswith :: "string \<Rightarrow> string \<Rightarrow> bool" where
  "startswith s [] = True"
| "startswith [] (p # ps) = False"
| "startswith (c # cs) (p # ps) = (c = p \<and> startswith cs ps)"

text \<open>\<^verbatim>\<open>s.endswith(p)\<close>\<close>

definition endswith :: "string \<Rightarrow> string \<Rightarrow> bool" where
  "endswith s p = startswith (rev s) (rev p)"

text \<open>
  \<^verbatim>\<open>s.split(sep)\<close> for a separator of one character: the pieces between the separators, so
  one piece more than there are separators.
\<close>

fun split :: "char \<Rightarrow> string \<Rightarrow> string list" where
  "split sep [] = [[]]"
| "split sep (c # cs) =
     (if c = sep then [] # split sep cs
      else (case split sep cs of
              [] \<Rightarrow> [[c]]
            | w # ws \<Rightarrow> (c # w) # ws))"

text \<open>
  \<^verbatim>\<open>s.lower()\<close> on the letters A to Z. Every handler name is ASCII and has no letter k
  (the one ASCII letter that a character outside ASCII lowers to), so on the bytes of a
  kind this finds the same handler as Python's Unicode lowering.
\<close>

definition lower_char :: "char \<Rightarrow> char" where
  "lower_char c =
     (case map_of (zip ''ABCDEFGHIJKLMNOPQRSTUVWXYZ'' ''abcdefghijklmnopqrstuvwxyz'') c of
        None \<Rightarrow> c
      | Some l \<Rightarrow> l)"

definition lower :: "string \<Rightarrow> string" where
  "lower s = map lower_char s"

text \<open>
  \<^verbatim>\<open>os.path.join(a, *p)\<close> of posixpath: a component that starts with a slash discards
  what came before it.
\<close>

fun path_join :: "string \<Rightarrow> string list \<Rightarrow> string" where
  "path_join path [] = path"
| "path_join path (b # bs) =
     path_join
       (if startswith b ''/'' then b
        else if path = [] \<or> endswith path ''/'' then path @ b
        else path @ ''/'' @ b)
       bs"

subsection \<open>RichStatus and Resource\<close>

text \<open>
  Modelled from the spec: class \<^verbatim>\<open>RichStatus\<close> of ambassador/utils.py, which is not among the
  sources. \<^verbatim>\<open>RichStatus.OK(msg=m)\<close> is a success and \<^verbatim>\<open>RichStatus.fromError(e)\<close> a failure;
  \<^verbatim>\<open>if not rc\<close> tests for the failure and \<^verbatim>\<open>rc.toDict()\<close> is the structured record that
  the error ledger keeps.
\<close>

datatype RichStatus = OK string | fromError string

fun ok :: "RichStatus \<Rightarrow> bool" where
  "ok (OK m) = True"
| "ok (fromError e) = False"

fun toDict :: "RichStatus \<Rightarrow> (string \<times> json) list" where
  "toDict (OK m) = [(''ok'', JBool True), (''msg'', JStr m)]"
| "toDict (fromError e) = [(''ok'', JBool False), (''error'', JStr e)]"

text \<open>
  Modelled from the spec: class \<^verbatim>\<open>Resource\<close> of ambassador/resource.py, which is not among
  the sources. The spec's data model gives it the fields below; \<open>apiVersion\<close>, \<open>kind\<close> and
  \<open>name\<close> are \<open>None\<close> when the document lacks them, and \<open>payload\<close> holds the document's other
  keys in order. The location is whatever value a Pragma's \<^verbatim>\<open>source\<close> key carried, a string in
  a well-formed document. A resource is an object that the parser mutates in two places (the
  location override and the attached errors); the model passes the value on, so the
  resource that is stored is the one as mutated so far.
\<close>

record resource =
  rkey :: string
  location :: json
  apiVersion :: "string option"
  kind :: "string option"
  name :: "string option"
  payload :: "(string \<times> json) list"
  r_errors :: "(string \<times> json) list list"

text \<open>\<^verbatim>\<open>resource.keys()\<close>\<close>

definition keys :: "resource \<Rightarrow> string list" where
  "keys r =
     (case apiVersion r of None \<Rightarrow> [] | Some _ \<Rightarrow> [''apiVersion''])
     @ (case kind r of None \<Rightarrow> [] | Some _ \<Rightarrow> [''kind''])
     @ (case name r of None \<Rightarrow> [] | Some _ \<Rightarrow> [''name''])
     @ map fst (payload r)"

text \<open>\<^verbatim>\<open>resource.as_dict()\<close>, the instance that the schema is applied to.\<close>

definition as_dict :: "resource \<Rightarrow> json" where
  "as_dict r =
     JObj ((case apiVersion r of None \<Rightarrow> [] | Some v \<Rightarrow> [(''apiVersion'', JStr v)])
           @ (case kind r of None \<Rightarrow> [] | Some v \<Rightarrow> [(''kind'', JStr v)])
           @ (case name r of None \<Rightarrow> [] | Some v \<Rightarrow> [(''name'', JStr v)])
           @ payload r)"

text \<open>\<^verbatim>\<open>resource.post_error(d)\<close> attaches an error record to the resource.\<close>

definition resource_post_error :: "resource \<Rightarrow> (string \<times> json) list \<Rightarrow> resource" where
  "resource_post_error r d = r\<lparr>r_errors := r_errors r @ [d]\<rparr>"

text \<open>
  \<^verbatim>\<open>Resource.from_resource(other, kind=k, **kwargs)\<close>: a new resource with the provenance,
  apiVersion and name of the other one, the given kind, and the keyword arguments as its
  body (the wrapper is discarded, the nested configuration is promoted).
\<close>

definition from_resource :: "resource \<Rightarrow> string \<Rightarrow> (string \<times> json) list \<Rightarrow> resource" where
  "from_resource other k kwargs = other\<lparr>kind := Some k, payload := kwargs, r_errors := []\<rparr>"

subsection \<open>Exceptions, log entries, the environment\<close>

datatype exn =
    AlreadyPresent resource
      \<comment> \<open>\<^verbatim>\<open>Exception("%s defines %s %s, which is already present")\<close>\<close>
  | Unparseable
      \<comment> \<open>\<^verbatim>\<open>Exception("ERROR ERROR ERROR Unparseable configuration; exiting")\<close>\<close>
  | UnknownResource
      \<comment> \<open>\<^verbatim>\<open>Exception("FATAL: trying to post an error from a totally unknown resource??")\<close>\<close>
  | SchemaError string
      \<comment> \<open>raised by \<^verbatim>\<open>jsonschema.validate\<close> on a schema that is not one\<close>
  | IndexError
  | KeyError string
  | AttributeError string
  | TypeError string

datatype level = DEBUG | WARNING | ERROR

text \<open>One constructor per logging call of the file, with the values its format string takes.\<close>

datatype log_msg =
    LoadAllSkip resource string "json list"
      \<comment> \<open>\<^verbatim>\<open>"LOAD_ALL: skip %s; id %s not in %s"\<close>\<close>
  | LoadAllAt resource json
      \<comment> \<open>\<^verbatim>\<open>"LOAD_ALL: %s @ %s"\<close>\<close>
  | StartingWithErrors
      \<comment> \<open>\<^verbatim>\<open>"ERROR ERROR ERROR Starting with configuration _errors"\<close>\<close>
  | PostError resource RichStatus
      \<comment> \<open>\<^verbatim>\<open>"%s: %s"\<close>\<close>
  | NoHandler resource string
      \<comment> \<open>\<^verbatim>\<open>"%s: no handler for %s, just saving"\<close>\<close>
  | Handling resource string
      \<comment> \<open>\<^verbatim>\<open>"%s: handling %s..."\<close>\<close>
  | NoSchema string
      \<comment> \<open>\<^verbatim>\<open>"no schema at %s, skipping"\<close>\<close>
  | CorruptSchema string string
      \<comment> \<open>\<^verbatim>\<open>"corrupt schema at %s, skipping (%s)"\<close>\<close>
  | Saving resource "string option" string
      \<comment> \<open>\<^verbatim>\<open>"%s: saving %s %s"\<close>\<close>
  | PragmaKeys "string list"
      \<comment> \<open>\<^verbatim>\<open>"PRAGMA: %s"\<close>\<close>
  | PragmaOverride string json
      \<comment> \<open>\<^verbatim>\<open>"PRAGMA: override %s to %s"\<close>\<close>

text \<open>
  What the parser reads from outside itself: the class variable \<^verbatim>\<open>Config.ambassador_id\<close>
  (taken from the process environment), the schema files, and the jsonschema library.
  \<^verbatim>\<open>json.load(open(path, "r"))\<close> raises \<^verbatim>\<open>OSError\<close> when the file cannot be opened and
  \<^verbatim>\<open>JSONDecodeError\<close> when it does not parse; \<^verbatim>\<open>jsonschema.validate(instance, schema)\<close>
  returns, or raises \<^verbatim>\<open>ValidationError\<close> or \<^verbatim>\<open>SchemaError\<close>. Other failures of reading a
  file (bytes that do not decode as text) are left out.
\<close>

datatype load_result = OSError | JSONDecodeError string | Loaded json

datatype validate_result = Valid | ValidationError string | InvalidSchema string

record env =
  ambassador_id :: string
  json_load :: "string \<Rightarrow> load_result"
  jsonschema_validate :: "json \<Rightarrow> json \<Rightarrow> validate_result"

subsection \<open>The instance variables\<close>

record Config =
  schema_dir_path :: string
  current_resource :: "resource option"
  schemas :: "(string \<times> json) list"
  config :: "(string \<times> (string \<times> resource) list) list"
  sources :: "(string \<times> resource) list"
  location_overrides :: "(string \<times> (string \<times> json) list) list"
  errors :: "(string \<times> (string \<times> json) list list) list"
  fatal_errors :: nat
  object_errors :: nat
  logger :: "(level \<times> log_msg) list"

definition log :: "level \<Rightarrow> log_msg \<Rightarrow> Config \<Rightarrow> Config" where
  "log l m c = c\<lparr>logger := logger c @ [(l, m)]\<rparr>"

subsection \<open>Storing\<close>

text \<open>\<^verbatim>\<open>save_source\<close>: \<^verbatim>\<open>self.sources[resource.rkey] = resource\<close>\<close>

definition save_source :: "Config \<Rightarrow> resource \<Rightarrow> Config" where
  "save_source c r = c\<lparr>sources := AList.update (rkey r) r (sources c)\<rparr>"

text \<open>
  \<^verbatim>\<open>safe_store\<close>. An exception ends the pass, so the state it leaves behind (the bucket that
  \<^verbatim>\<open>setdefault\<close> may have created) is not kept. The handlers reach it with a resource that has
  a name; reading the name of one that has none is an attribute error.
\<close>

definition safe_store :: "Config \<Rightarrow> string \<Rightarrow> resource \<Rightarrow> bool \<Rightarrow> exn + Config" where
  "safe_store c storage_name r allow_log =
     (let storage = (case map_of (config c) storage_name of None \<Rightarrow> [] | Some s \<Rightarrow> s)
      in case name r of
           None \<Rightarrow> Inl (AttributeError ''name'')
         | Some n \<Rightarrow>
             if n \<in> fst ` set storage then Inl (AlreadyPresent r)
             else
               let c1 = (if allow_log then log DEBUG (Saving r (kind r) n) c else c)
               in Inr (c1\<lparr>config := AList.update storage_name (AList.update n r storage) (config c1)\<rparr>))"

text \<open>\<^verbatim>\<open>save_object\<close>: the resource's kind is the storage name.\<close>

definition save_object :: "Config \<Rightarrow> resource \<Rightarrow> bool \<Rightarrow> exn + Config" where
  "save_object c r allow_log =
     (case kind r of
        None \<Rightarrow> Inl (AttributeError ''kind'')
      | Some k \<Rightarrow> safe_store c k r allow_log)"

text \<open>\<^verbatim>\<open>get_config\<close>: \<^verbatim>\<open>self.config.get(key, None)\<close>\<close>

definition get_config :: "Config \<Rightarrow> string \<Rightarrow> (string \<times> resource) list option" where
  "get_config c key = map_of (config c) key"

text \<open>What a bucket holds under a name: \<^verbatim>\<open>self.config[bucket][name]\<close> where both keys exist.\<close>

definition stored :: "Config \<Rightarrow> string \<Rightarrow> string \<Rightarrow> resource option" where
  "stored c bucket n = (case get_config c bucket of None \<Rightarrow> None | Some s \<Rightarrow> map_of s n)"

subsection \<open>Validation against the schema\<close>

text \<open>
  The local variables of \<^verbatim>\<open>validate_object\<close>: the version is
  \<^verbatim>\<open>apiVersion.split('/')[1]\<close>, the cache key \<^verbatim>\<open>"%s-%s" % (apiVersion, resource.kind)\<close>, the
  file \<^verbatim>\<open>os.path.join(self.schema_dir_path, apiVersion, "%s.schema" % resource.kind)\<close>.
\<close>

definition schema_version :: "string \<Rightarrow> exn + string" where
  "schema_version av =
     (case split CHR ''/'' av of
        _ # v # _ \<Rightarrow> Inr v
      | _ \<Rightarrow> Inl IndexError)"

definition schema_key :: "string \<Rightarrow> string \<Rightarrow> string" where
  "schema_key v k = v @ ''-'' @ k"

definition schema_path :: "Config \<Rightarrow> string \<Rightarrow> string \<Rightarrow> string" where
  "schema_path c v k = path_join (schema_dir_path c) [v, k @ ''.schema'']"

text \<open>\<^verbatim>\<open>if schema:\<close> for the variable that \<^verbatim>\<open>self.schemas.get(schema_key, None)\<close> set.\<close>

definition truthy_opt :: "json option \<Rightarrow> bool" where
  "truthy_opt s = (case s of None \<Rightarrow> False | Some j \<Rightarrow> truthy j)"

text \<open>
  The lookup of \<^verbatim>\<open>validate_object\<close> (from "Do we already have this schema loaded?" to the
  end of the \<^verbatim>\<open>try\<close>): the state and the variable \<^verbatim>\<open>schema\<close> after it. A file that loads is
  cached only if its content is truthy; a file that is absent or corrupt is logged and
  leaves the variable as the cache lookup set it.
\<close>

definition find_schema :: "env \<Rightarrow> Config \<Rightarrow> string \<Rightarrow> string \<Rightarrow> Config \<times> json option" where
  "find_schema env c v k =
     (let schema = map_of (schemas c) (schema_key v k)
      in if truthy_opt schema then (c, schema)
         else
           (case json_load env (schema_path c v k) of
              Loaded s \<Rightarrow>
                (if truthy s then c\<lparr>schemas := AList.update (schema_key v k) s (schemas c)\<rparr> else c,
                 Some s)
            | OSError \<Rightarrow> (log DEBUG (NoSchema (schema_path c v k)) c, schema)
            | JSONDecodeError e \<Rightarrow> (log WARNING (CorruptSchema (schema_path c v k) e) c, schema)))"

text \<open>
  The end of \<^verbatim>\<open>validate_object\<close> (from "We have a schema. Does the object validate OK?"):
  a truthy schema is applied to the resource, and a \<^verbatim>\<open>ValidationError\<close> is the only exception
  that is caught.
\<close>

definition apply_schema :: "env \<Rightarrow> resource \<Rightarrow> string \<Rightarrow> json option \<Rightarrow> exn + RichStatus" where
  "apply_schema env r k schema =
     (case schema of
        None \<Rightarrow> Inr (OK (''valid '' @ k))
      | Some s \<Rightarrow>
          if truthy s then
            (case jsonschema_validate env (as_dict r) s of
               Valid \<Rightarrow> Inr (OK (''valid '' @ k))
             | ValidationError e \<Rightarrow> Inr (fromError (''not a valid '' @ k @ '': '' @ e))
             | InvalidSchema e \<Rightarrow> Inl (SchemaError e))
          else Inr (OK (''valid '' @ k)))"

definition validate_object :: "env \<Rightarrow> Config \<Rightarrow> resource \<Rightarrow> exn + (Config \<times> RichStatus)" where
  "validate_object env c r =
     (case apiVersion r of
        None \<Rightarrow> Inr (c, fromError ''must have apiVersion, kind, and name'')
      | Some av \<Rightarrow>
      (case kind r of
        None \<Rightarrow> Inr (c, fromError ''must have apiVersion, kind, and name'')
      | Some k \<Rightarrow>
      (case name r of
        None \<Rightarrow> Inr (c, fromError ''must have apiVersion, kind, and name'')
      | Some n \<Rightarrow>
          if startswith av ''ambassador/'' then
            (case schema_version av of
               Inl e \<Rightarrow> Inl e
             | Inr v \<Rightarrow>
                 (case find_schema env c v k of
                    (c1, schema) \<Rightarrow>
                      (case apply_schema env r k schema of
                         Inl e \<Rightarrow> Inl e
                       | Inr rc \<Rightarrow> Inr (c1, rc))))
          else Inr (c, fromError (''apiVersion '' @ av @ '' unsupported'')))))"

subsection \<open>The handlers\<close>

text \<open>
  The loop of \<^verbatim>\<open>handle_pragma\<close> over the key list: only the key \<^verbatim>\<open>source\<close> does anything,
  \<^verbatim>\<open>self.location_overrides.setdefault(rkey, {})['source'] = resource['source']\<close>.
\<close>

fun pragma_keys :: "Config \<Rightarrow> resource \<Rightarrow> string list \<Rightarrow> exn + Config" where
  "pragma_keys c r [] = Inr c"
| "pragma_keys c r (key # keylist) =
     (if key = ''source'' then
        (case map_of (payload r) ''source'' of
           None \<Rightarrow> Inl (KeyError ''source'')
         | Some v \<Rightarrow>
             let override = (case map_of (location_overrides c) (rkey r) of
                               None \<Rightarrow> [] | Some ov \<Rightarrow> ov);
                 c1 = c\<lparr>location_overrides :=
                         AList.update (rkey r) (AList.update ''source'' v override)
                           (location_overrides c)\<rparr>
             in pragma_keys (log DEBUG (PragmaOverride (rkey r) v) c1) r keylist)
      else pragma_keys c r keylist)"

definition handle_pragma :: "Config \<Rightarrow> resource \<Rightarrow> exn + (Config \<times> RichStatus)" where
  "handle_pragma c r =
     (let keylist = sort (filter (\<lambda>x. x \<noteq> ''apiVersion'' \<and> x \<noteq> ''kind'') (sort (keys r)))
      in case pragma_keys (log DEBUG (PragmaKeys keylist) c) r keylist of
           Inl e \<Rightarrow> Inl e
         | Inr c1 \<Rightarrow> Inr (c1, OK ''handled pragma object''))"

text \<open>
  \<^verbatim>\<open>handle_module\<close>: \<^verbatim>\<open>resource.config\<close> is the document's \<^verbatim>\<open>config\<close> key, and \<^verbatim>\<open>**\<close> takes
  a mapping only.
\<close>

definition handle_module :: "Config \<Rightarrow> resource \<Rightarrow> exn + Config" where
  "handle_module c r =
     (case map_of (payload r) ''config'' of
        None \<Rightarrow> Inl (AttributeError ''config'')
      | Some (JObj kwargs) \<Rightarrow> safe_store c ''modules'' (from_resource r ''Module'' kwargs) True
      | Some _ \<Rightarrow> Inl (TypeError ''config''))"

definition handle_ratelimitservice :: "Config \<Rightarrow> resource \<Rightarrow> exn + Config" where
  "handle_ratelimitservice c r = safe_store c ''ratelimit_configs'' r True"

definition handle_tracingservice :: "Config \<Rightarrow> resource \<Rightarrow> exn + Config" where
  "handle_tracingservice c r = safe_store c ''tracing_configs'' r True"

definition handle_authservice :: "Config \<Rightarrow> resource \<Rightarrow> exn + Config" where
  "handle_authservice c r = safe_store c ''auth_configs'' r True"

definition handle_mapping :: "Config \<Rightarrow> resource \<Rightarrow> exn + Config" where
  "handle_mapping c r = safe_store c ''mappings'' r True"

text \<open>
  \<^verbatim>\<open>getattr(self, handler_name, None)\<close>: the attributes of a \<^verbatim>\<open>Config\<close> whose names start with
  \<^verbatim>\<open>handle_\<close> are the six methods. A handler's return value is dropped by \<^verbatim>\<open>process\<close>, so
  \<^verbatim>\<open>handle_pragma\<close> (found for a kind such as \<^verbatim>\<open>pragma\<close> or \<^verbatim>\<open>PRAGMA\<close>) keeps its state only.
\<close>

definition getattr_handler :: "string \<Rightarrow> (Config \<Rightarrow> resource \<Rightarrow> exn + Config) option" where
  "getattr_handler handler_name =
     (if handler_name = ''handle_pragma'' then
        Some (\<lambda>c r. case handle_pragma c r of Inl e \<Rightarrow> Inl e | Inr (c1, rc) \<Rightarrow> Inr c1)
      else if handler_name = ''handle_module'' then Some handle_module
      else if handler_name = ''handle_ratelimitservice'' then Some handle_ratelimitservice
      else if handler_name = ''handle_tracingservice'' then Some handle_tracingservice
      else if handler_name = ''handle_authservice'' then Some handle_authservice
      else if handler_name = ''handle_mapping'' then Some handle_mapping
      else None)"

subsection \<open>Processing one resource\<close>

text \<open>
  The second half of \<^verbatim>\<open>process\<close>, from "Grab the handler for this object type" to the
  \<^verbatim>\<open>try\<close>: the handler found by name, or \<^verbatim>\<open>save_object\<close> with a warning. The \<^verbatim>\<open>except\<close>
  clause raises again, so the handler's exception is the result.
\<close>

definition dispatch :: "Config \<Rightarrow> resource \<Rightarrow> string \<Rightarrow> exn + Config" where
  "dispatch c r k =
     (case getattr_handler (''handle_'' @ lower k) of
        None \<Rightarrow> save_object (log WARNING (NoHandler r k) c) r False
      | Some handler \<Rightarrow> handler (log DEBUG (Handling r k) c) r)"

definition process :: "env \<Rightarrow> Config \<Rightarrow> resource option \<Rightarrow> exn + (Config \<times> RichStatus)" where
  "process env c resource =
     (case resource of
        None \<Rightarrow> Inr (c, fromError ''undefined object???'')
      | Some r \<Rightarrow>
          let c1 = c\<lparr>current_resource := Some r\<rparr>
          in if \<not> truthy_str (apiVersion r) then Inr (c1, fromError ''need apiVersion'')
             else
               (case kind r of
                  None \<Rightarrow> Inr (c1, fromError ''need kind'')
                | Some k \<Rightarrow>
                    if k = [] then Inr (c1, fromError ''need kind'')
                    else if k = ''Pragma'' then handle_pragma c1 r
                    else if name r = None then Inr (c1, fromError ''need name'')
                    else
                      (case validate_object env (save_source c1 r) r of
                         Inl e \<Rightarrow> Inl e
                       | Inr (c3, rc) \<Rightarrow>
                           if \<not> ok rc then Inr (c3, rc)
                           else
                             (case dispatch c3 r k of
                                Inl e \<Rightarrow> Inl e
                              | Inr c4 \<Rightarrow>
                                  Inr (c4\<lparr>current_resource := None\<rparr>,
                                       OK (k @ '' object processed successfully''))))))"

text \<open>
  \<^verbatim>\<open>post_error\<close>. The resource is saved as a source and then given the error; both names
  are one object, so the source that is kept carries the error.
\<close>

definition post_error :: "Config \<Rightarrow> RichStatus \<Rightarrow> resource option \<Rightarrow> exn + Config" where
  "post_error c rc resource =
     (case (case resource of None \<Rightarrow> current_resource c | Some r \<Rightarrow> Some r) of
        None \<Rightarrow> Inl UnknownResource
      | Some r \<Rightarrow>
          let r1 = resource_post_error r (toDict rc);
              c1 = save_source c r1;
              errs = (case map_of (errors c1) (rkey r) of None \<Rightarrow> [] | Some es \<Rightarrow> es);
              c2 = c1\<lparr>errors := AList.update (rkey r) (errs @ [toDict rc]) (errors c1)\<rparr>
          in Inr (log ERROR (PostError r1 rc) c2))"

subsection \<open>Loading a sequence of resources\<close>

text \<open>The location override at the head of the loop body of \<^verbatim>\<open>load_all\<close>.\<close>

definition apply_override :: "Config \<Rightarrow> resource \<Rightarrow> resource" where
  "apply_override c r =
     (case map_of (location_overrides c) (rkey r) of
        None \<Rightarrow> r
      | Some override \<Rightarrow>
          r\<lparr>location := (case map_of override ''source'' of
                           None \<Rightarrow> JStr (rkey r)
                         | Some v \<Rightarrow> v)\<rparr>)"

text \<open>What a state holds as \<^verbatim>\<open>self.location_overrides[rkey]['source']\<close>, if both keys exist.\<close>

definition override_source :: "Config \<Rightarrow> string \<Rightarrow> json option" where
  "override_source c k =
     (case map_of (location_overrides c) k of
        None \<Rightarrow> None
      | Some override \<Rightarrow> map_of override ''source'')"

text \<open>\<^verbatim>\<open>resource.get('ambassador_id', 'default')\<close>, and the list that a value which is not one is wrapped in.\<close>

definition allowed_ids :: "resource \<Rightarrow> json" where
  "allowed_ids r =
     (case map_of (payload r) ''ambassador_id'' of
        None \<Rightarrow> JStr ''default''
      | Some v \<Rightarrow> v)"

definition as_list :: "json \<Rightarrow> json list" where
  "as_list v = (case v of JList xs \<Rightarrow> xs | _ \<Rightarrow> [v])"

text \<open>
  The test that leads to the \<^verbatim>\<open>return\<close> of the loop body: the ids are truthy and the
  configured identity is not among them.
\<close>

definition excluded :: "env \<Rightarrow> resource \<Rightarrow> bool" where
  "excluded env r =
     (truthy (allowed_ids r) \<and> JStr (ambassador_id env) \<notin> set (as_list (allowed_ids r)))"

text \<open>
  How one run of the loop body ends: by the \<^verbatim>\<open>return\<close> statement, which leaves \<^verbatim>\<open>load_all\<close>,
  or at its end, which goes on to the next resource.
\<close>

datatype 'a flow = Return 'a | Next 'a

definition load_one :: "env \<Rightarrow> Config \<Rightarrow> resource \<Rightarrow> exn + Config flow" where
  "load_one env c resource =
     (let r = apply_override c resource
      in if excluded env r then
           Inr (Return (log DEBUG (LoadAllSkip r (ambassador_id env) (as_list (allowed_ids r))) c))
         else
           (case process env (log DEBUG (LoadAllAt r (location r)) c) (Some r) of
              Inl e \<Rightarrow> Inl e
            | Inr (c2, rc) \<Rightarrow>
                if \<not> ok rc then
                  (case post_error c2 rc (Some r) of
                     Inl e \<Rightarrow> Inl e
                   | Inr c3 \<Rightarrow> Inr (Next c3))
                else Inr (Next c2)))"

fun load_loop :: "env \<Rightarrow> Config \<Rightarrow> resource list \<Rightarrow> exn + Config flow" where
  "load_loop env c [] = Inr (Next c)"
| "load_loop env c (resource # resources) =
     (case load_one env c resource of
        Inl e \<Rightarrow> Inl e
      | Inr (Return c1) \<Rightarrow> Inr (Return c1)
      | Inr (Next c1) \<Rightarrow> load_loop env c1 resources)"

definition load_all :: "env \<Rightarrow> Config \<Rightarrow> resource list \<Rightarrow> exn + Config" where
  "load_all env c resources =
     (case load_loop env c resources of
        Inl e \<Rightarrow> Inl e
      | Inr (Return c1) \<Rightarrow> Inr c1
      | Inr (Next c1) \<Rightarrow>
          if fatal_errors c1 \<noteq> 0 then Inl Unparseable
          else if errors c1 \<noteq> [] then Inr (log ERROR StartingWithErrors c1)
          else Inr c1)"

subsection \<open>Sample documents\<close>

text \<open>
  A fresh pass with no schema directory content, the default identity, and a few documents:
  a Mapping, an AuthService of the same name, a Pragma for the Mapping's file, and a Mapping
  that belongs to another Ambassador.
\<close>

definition sample_config :: Config where
  "sample_config =
     \<lparr>schema_dir_path = ''schemas'', current_resource = None, schemas = [], config = [],
      sources = [], location_overrides = [], errors = [], fatal_errors = 0,
      object_errors = 0, logger = []\<rparr>"

definition sample_env :: env where
  "sample_env =
     \<lparr>ambassador_id = ''default'', json_load = (\<lambda>p. OSError),
      jsonschema_validate = (\<lambda>i s. Valid)\<rparr>"

definition sample_mapping :: resource where
  "sample_mapping =
     \<lparr>rkey = ''a.yaml.1'', location = JStr ''a.yaml.1'', apiVersion = Some ''ambassador/v0'',
      kind = Some ''Mapping'', name = Some ''m1'',
      payload = [(''prefix'', JStr ''/x/''), (''service'', JStr ''x'')], r_errors = []\<rparr>"

definition sample_auth :: resource where
  "sample_auth =
     \<lparr>rkey = ''b.yaml.1'', location = JStr ''b.yaml.1'', apiVersion = Some ''ambassador/v0'',
      kind = Some ''AuthService'', name = Some ''m1'',
      payload = [(''auth_service'', JStr ''auth:3000'')], r_errors = []\<rparr>"

definition sample_pragma :: resource where
  "sample_pragma =
     \<lparr>rkey = ''a.yaml.1'', location = JStr ''a.yaml.1'', apiVersion = Some ''ambassador/v0'',
      kind = Some ''Pragma'', name = None,
      payload = [(''source'', JStr ''foo'')], r_errors = []\<rparr>"

definition sample_foreign :: resource where
  "sample_foreign =
     \<lparr>rkey = ''c.yaml.1'', location = JStr ''c.yaml.1'', apiVersion = Some ''ambassador/v0'',
      kind = Some ''Mapping'', name = Some ''m2'',
      payload = [(''ambassador_id'', JStr ''other''), (''prefix'', JStr ''/y/'')],
      r_errors = []\<rparr>"

text \<open>
  Documents and schema directories for the validator: an apiVersion of another namespace,
  an apiVersion with a second slash, a Mapping without a service, a directory whose only file is the Mapping schema of
  version v1, one in which every file holds the empty object, one in which every file is
  corrupt, and a library that rejects every instance.
\<close>

definition sample_unsupported :: resource where
  "sample_unsupported =
     \<lparr>rkey = ''d.yaml.1'', location = JStr ''d.yaml.1'', apiVersion = Some ''getambassador.io/v1'',
      kind = Some ''Mapping'', name = Some ''m3'',
      payload = [(''prefix'', JStr ''/z/'')], r_errors = []\<rparr>"

definition sample_beta :: resource where
  "sample_beta =
     \<lparr>rkey = ''e.yaml.1'', location = JStr ''e.yaml.1'', apiVersion = Some ''ambassador/v1/beta'',
      kind = Some ''Mapping'', name = Some ''m4'',
      payload = [(''prefix'', JStr ''/w/'')], r_errors = []\<rparr>"

definition sample_incomplete :: resource where
  "sample_incomplete =
     \<lparr>rkey = ''f.yaml.1'', location = JStr ''f.yaml.1'', apiVersion = Some ''ambassador/v0'',
      kind = Some ''Mapping'', name = Some ''m5'',
      payload = [(''prefix'', JStr ''/v/'')], r_errors = []\<rparr>"

definition sample_schema :: json where
  "sample_schema = JObj [(''type'', JStr ''object''), (''required'', JList [JStr ''service''])]"

definition v1_mapping_env :: env where
  "v1_mapping_env =
     \<lparr>ambassador_id = ''default'',
      json_load = (\<lambda>p. if p = ''schemas/v1/Mapping.schema'' then Loaded sample_schema else OSError),
      jsonschema_validate = (\<lambda>i s. Valid)\<rparr>"

definition strict_env :: env where
  "strict_env =
     \<lparr>ambassador_id = ''default'', json_load = (\<lambda>p. Loaded sample_schema),
      jsonschema_validate = (\<lambda>i s. ValidationError ''service is a required property'')\<rparr>"

definition empty_schema_env :: env where
  "empty_schema_env =
     \<lparr>ambassador_id = ''default'', json_load = (\<lambda>p. Loaded (JObj [])),
      jsonschema_validate = (\<lambda>i s. Valid)\<rparr>"

definition corrupt_env :: env where
  "corrupt_env =
     \<lparr>ambassador_id = ''default'', json_load = (\<lambda>p. JSONDecodeError ''Expecting value''),
      jsonschema_validate = (\<lambda>i s. ValidationError ''service is a required property'')\<rparr>"

text \<open>
  An identity that no sample document names, a Mapping without a name, and a Mapping whose
  \<^verbatim>\<open>ambassador_id\<close> is the empty list.
\<close>

definition other_env :: env where
  "other_env =
     \<lparr>ambassador_id = ''other-ambassador'', json_load = (\<lambda>p. OSError),
      jsonschema_validate = (\<lambda>i s. Valid)\<rparr>"

definition sample_nameless :: resource where
  "sample_nameless =
     \<lparr>rkey = ''h.yaml.1'', location = JStr ''h.yaml.1'', apiVersion = Some ''ambassador/v0'',
      kind = Some ''Mapping'', name = None,
      payload = [(''prefix'', JStr ''/t/'')], r_errors = []\<rparr>"

text \<open>
  A state in which the Mapping is already stored, a document of a kind that has no
  handler, and a state in which that document is already stored.
\<close>

definition loaded_config :: Config where
  "loaded_config = sample_config\<lparr>config := [(''mappings'', [(''m1'', sample_mapping)])]\<rparr>"

definition sample_widget :: resource where
  "sample_widget =
     \<lparr>rkey = ''i.yaml.1'', location = JStr ''i.yaml.1'', apiVersion = Some ''ambassador/v0'',
      kind = Some ''Widget'', name = Some ''w1'',
      payload = [(''size'', JInt 3)], r_errors = []\<rparr>"

definition widget_config :: Config where
  "widget_config = sample_config\<lparr>config := [(''Widget'', [(''w1'', sample_widget)])]\<rparr>"

definition sample_unowned :: resource where
  "sample_unowned =
     \<lparr>rkey = ''g.yaml.1'', location = JStr ''g.yaml.1'', apiVersion = Some ''ambassador/v0'',
      kind = Some ''Mapping'', name = Some ''m6'',
      payload = [(''ambassador_id'', JList []), (''prefix'', JStr ''/u/'')], r_errors = []\<rparr>"

section \<open>Properties\<close>

text \<open>The definitions that evaluating the parser on a sample document unfolds.\<close>

lemmas sample_defs = sample_config_def sample_env_def sample_mapping_def sample_auth_def
  sample_pragma_def sample_foreign_def sample_unowned_def other_env_def sample_nameless_def
  sample_incomplete_def sample_unsupported_def sample_beta_def sample_schema_def strict_env_def
  corrupt_env_def empty_schema_env_def v1_mapping_env_def loaded_config_def sample_widget_def
  widget_config_def

lemmas model_defs = load_all_def load_one_def excluded_def allowed_ids_def as_list_def
  apply_override_def process_def truthy_str_def save_source_def validate_object_def
  schema_version_def find_schema_def schema_key_def schema_path_def endswith_def truthy_opt_def
  apply_schema_def dispatch_def getattr_handler_def lower_def lower_char_def handle_mapping_def
  handle_authservice_def handle_module_def handle_ratelimitservice_def handle_tracingservice_def
  save_object_def safe_store_def log_def Let_def post_error_def resource_post_error_def
  handle_pragma_def keys_def stored_def get_config_def override_source_def

subsection \<open>Dictionaries and strings\<close>

lemma in_keys_iff: "(n \<in> fst ` set al) = (map_of al n \<noteq> None)"
  by (simp add: map_of_eq_None_iff)

lemma startswith_append: "startswith (p @ t) p"
  by (induction p) simp_all

lemma startswith_iff: "startswith s p = (\<exists>t. s = p @ t)"
proof (induction s p rule: startswith.induct)
  case (1 s)
  then show ?case by simp
next
  case (2 p ps)
  then show ?case by simp
next
  case (3 c cs p ps)
  then show ?case by auto
qed

lemma split_not_Nil: "split sep s \<noteq> []"
  by (induction s) (auto split: list.splits)

lemma split_no_sep: "sep \<notin> set s \<Longrightarrow> split sep s = [s]"
  by (induction s) auto

lemma split_Cons_sep: "sep \<notin> set w \<Longrightarrow> split sep (w @ sep # t) = w # split sep t"
  by (induction w) (auto split: list.splits simp: split_not_Nil)

subsection \<open>Storing under a name\<close>

lemma safe_store_eq:
  "name r = Some n \<Longrightarrow>
   safe_store c b r lg =
     (if stored c b n \<noteq> None then Inl (AlreadyPresent r)
      else Inr ((if lg then log DEBUG (Saving r (kind r) n) c else c)
                 \<lparr>config := AList.update b
                    (AList.update n r (case get_config c b of None \<Rightarrow> [] | Some s \<Rightarrow> s))
                    (config c)\<rparr>))"
  by (cases "map_of (config c) b")
     (simp_all add: safe_store_def stored_def get_config_def in_keys_iff log_def)

lemma stored_safe_store_same:
  "safe_store c b r lg = Inr c1 \<Longrightarrow> name r = Some n \<Longrightarrow> stored c1 b n = Some r"
  by (auto simp: safe_store_eq stored_def get_config_def log_def update_conv' split: if_splits)

lemma stored_safe_store_other:
  "safe_store c b r lg = Inr c1 \<Longrightarrow> b' \<noteq> b \<Longrightarrow> stored c1 b' n' = stored c b' n'"
  by (cases "name r")
     (auto simp: safe_store_eq stored_def get_config_def log_def update_conv' safe_store_def
           split: if_splits)

text \<open>
  C2. \<^verbatim>\<open>safe_store\<close> raises when the bucket already holds the resource's name. Two resources
  of one name do not conflict across two different buckets: after the first is stored, the
  second is accepted exactly when its own bucket had no such name before, and then each
  bucket holds its resource under the name.
\<close>

theorem safe_store_duplicates_and_buckets:
  "(name r = Some n \<and> stored c b n \<noteq> None \<longrightarrow> safe_store c b r lg = Inl (AlreadyPresent r))
   \<and> (name r1 = Some n \<and> name r2 = Some n \<and> b1 \<noteq> b2 \<and> safe_store c b1 r1 lg1 = Inr c1 \<longrightarrow>
        ((\<exists>c2. safe_store c1 b2 r2 lg2 = Inr c2) = (stored c b2 n = None))
        \<and> (\<forall>c2. safe_store c1 b2 r2 lg2 = Inr c2 \<longrightarrow>
              stored c2 b1 n = Some r1 \<and> stored c2 b2 n = Some r2))"
proof (intro conjI impI allI)
  assume "name r = Some n \<and> stored c b n \<noteq> None"
  then show "safe_store c b r lg = Inl (AlreadyPresent r)"
    by (simp add: safe_store_eq)
next
  assume h: "name r1 = Some n \<and> name r2 = Some n \<and> b1 \<noteq> b2 \<and> safe_store c b1 r1 lg1 = Inr c1"
  then have other: "stored c1 b2 n = stored c b2 n"
    using stored_safe_store_other [of c b1 r1 lg1 c1 b2 n] by auto
  from h show "(\<exists>c2. safe_store c1 b2 r2 lg2 = Inr c2) = (stored c b2 n = None)"
    by (simp add: safe_store_eq other)
next
  fix c2
  assume h: "name r1 = Some n \<and> name r2 = Some n \<and> b1 \<noteq> b2 \<and> safe_store c b1 r1 lg1 = Inr c1"
    and s2: "safe_store c1 b2 r2 lg2 = Inr c2"
  from h have first: "stored c1 b1 n = Some r1"
    using stored_safe_store_same [of c b1 r1 lg1 c1 n] by simp
  from h s2 have "stored c2 b1 n = stored c1 b1 n"
    using stored_safe_store_other [of c1 b2 r2 lg2 c2 b1 n] by auto
  with first show "stored c2 b1 n = Some r1" by simp
next
  fix c2
  assume h: "name r1 = Some n \<and> name r2 = Some n \<and> b1 \<noteq> b2 \<and> safe_store c b1 r1 lg1 = Inr c1"
    and s2: "safe_store c1 b2 r2 lg2 = Inr c2"
  then show "stored c2 b2 n = Some r2"
    using stored_safe_store_same [of c1 b2 r2 lg2 c2 n] by simp
qed

theorem safe_store_duplicates_and_buckets_witness:
  "(\<exists>c1. safe_store sample_config ''mappings'' sample_mapping True = Inr c1
      \<and> safe_store c1 ''mappings'' sample_mapping True = Inl (AlreadyPresent sample_mapping)
      \<and> (\<exists>c2. safe_store c1 ''auth_configs'' sample_auth True = Inr c2
            \<and> stored c2 ''mappings'' ''m1'' = Some sample_mapping
            \<and> stored c2 ''auth_configs'' ''m1'' = Some sample_auth))"
proof -
  obtain c1 where c1: "safe_store sample_config ''mappings'' sample_mapping True = Inr c1"
    by (auto simp: safe_store_def Let_def sample_config_def sample_mapping_def)
  have nm: "name sample_mapping = Some ''m1''" "name sample_auth = Some ''m1''"
    by (simp_all add: sample_mapping_def sample_auth_def)
  have st: "stored c1 ''mappings'' ''m1'' \<noteq> None"
    using stored_safe_store_same [OF c1 nm(1)] by simp
  have free: "stored sample_config ''auth_configs'' ''m1'' = None"
    by (simp add: stored_def get_config_def sample_config_def)
  note thm1 = safe_store_duplicates_and_buckets
      [where r = sample_mapping and n = "''m1''" and c = c1 and b = "''mappings''" and lg = True]
  note thm2 = safe_store_duplicates_and_buckets
      [where ?r1.0 = sample_mapping and ?r2.0 = sample_auth and n = "''m1''" and c = sample_config
         and ?b1.0 = "''mappings''" and ?b2.0 = "''auth_configs''" and ?c1.0 = c1
         and ?lg1.0 = True and ?lg2.0 = True]
  have dup: "safe_store c1 ''mappings'' sample_mapping True = Inl (AlreadyPresent sample_mapping)"
    using thm1 nm st by blast
  have h2: "name sample_mapping = Some ''m1'' \<and> name sample_auth = Some ''m1''
        \<and> ''mappings'' \<noteq> ''auth_configs''
        \<and> safe_store sample_config ''mappings'' sample_mapping True = Inr c1"
    using nm c1 by simp
  from thm2 h2 free obtain c2 where c2: "safe_store c1 ''auth_configs'' sample_auth True = Inr c2"
    by blast
  from thm2 h2 c2 have "stored c2 ''mappings'' ''m1'' = Some sample_mapping
      \<and> stored c2 ''auth_configs'' ''m1'' = Some sample_auth"
    by blast
  with c1 dup c2 show ?thesis by blast
qed

subsection \<open>Validation\<close>

lemma schema_path_cong:
  "schema_dir_path c' = schema_dir_path c \<Longrightarrow> schema_path c' v k = schema_path c v k"
  by (simp only: schema_path_def)

lemma find_schema_verdict:
  "schemas c' = schemas c \<Longrightarrow> schema_dir_path c' = schema_dir_path c \<Longrightarrow>
   snd (find_schema env c' v k) = snd (find_schema env c v k)"
  by (simp add: find_schema_def Let_def schema_path_cong [of c' c] split: load_result.splits)

lemma find_schema_frame:
  "fst (find_schema env c v k) =
     c\<lparr>schemas := schemas (fst (find_schema env c v k)),
       logger := logger (fst (find_schema env c v k))\<rparr>"
  by (simp add: find_schema_def Let_def log_def split: load_result.splits)

lemma schema_version_prefix:
  "schema_version (''ambassador/'' @ t) = Inr (hd (split CHR ''/'' t))"
proof -
  have "split CHR ''/'' (''ambassador'' @ CHR ''/'' # t) = ''ambassador'' # split CHR ''/'' t"
    by (rule split_Cons_sep) simp
  moreover obtain w ws where "split CHR ''/'' t = w # ws"
    using split_not_Nil [of "CHR ''/''" t] by (cases "split CHR ''/'' t") auto
  ultimately show ?thesis
    by (simp add: schema_version_def)
qed

lemma schema_version_total:
  "startswith av ''ambassador/'' \<Longrightarrow> \<exists>v. schema_version av = Inr v"
  unfolding startswith_iff using schema_version_prefix by blast

lemma validate_object_supported:
  assumes "apiVersion r = Some av" and "kind r = Some k" and "name r = Some n"
    and "startswith av ''ambassador/''" and "schema_version av = Inr v"
  shows "validate_object env c r =
           (case apply_schema env r k (snd (find_schema env c v k)) of
              Inl e \<Rightarrow> Inl e
            | Inr rc \<Rightarrow> Inr (fst (find_schema env c v k), rc))"
  using assms by (simp add: validate_object_def case_prod_beta)

lemma validate_object_unsupported:
  assumes "apiVersion r = Some av" and "kind r = Some k" and "name r = Some n"
    and "\<not> startswith av ''ambassador/''"
  shows "validate_object env c r = Inr (c, fromError (''apiVersion '' @ av @ '' unsupported''))"
  using assms by (simp add: validate_object_def)

lemma validate_object_frame:
  assumes "validate_object env c r = Inr (c1, rc)"
  shows "c1 = c\<lparr>schemas := schemas c1, logger := logger c1\<rparr>"
proof (cases "apiVersion r")
  case None
  with assms show ?thesis by (simp add: validate_object_def)
next
  case av: (Some av)
  show ?thesis
  proof (cases "kind r")
    case None
    with assms av show ?thesis by (simp add: validate_object_def)
  next
    case k: (Some k)
    show ?thesis
    proof (cases "name r")
      case None
      with assms av k show ?thesis by (simp add: validate_object_def)
    next
      case n: (Some n)
      show ?thesis
      proof (cases "startswith av ''ambassador/''")
        case False
        with assms av k n show ?thesis by (simp add: validate_object_unsupported)
      next
        case True
        then obtain v where v: "schema_version av = Inr v"
          using schema_version_total by blast
        from assms have "c1 = fst (find_schema env c v k)"
          by (simp add: validate_object_supported [OF av k n True v] split: sum.splits)
        then show ?thesis
          using find_schema_frame [of env c v k] by simp
      qed
    qed
  qed
qed

lemma validate_object_verdict:
  assumes "schemas c' = schemas c" and "schema_dir_path c' = schema_dir_path c"
  shows "map_sum id snd (validate_object env c' r) = map_sum id snd (validate_object env c r)"
proof (cases "\<exists>av k n. apiVersion r = Some av \<and> startswith av ''ambassador/'' \<and> kind r = Some k
                \<and> name r = Some n")
  case True
  then obtain av k n where f: "apiVersion r = Some av" "kind r = Some k" "name r = Some n"
    and sw: "startswith av ''ambassador/''"
    by blast
  from sw obtain v where v: "schema_version av = Inr v"
    using schema_version_total by blast
  show ?thesis
    using find_schema_verdict [OF assms, of env v k]
    by (simp add: validate_object_supported [OF f sw v] split: sum.splits)
next
  case False
  then show ?thesis
    by (auto simp: validate_object_def split: option.splits)
qed


subsection \<open>Processing\<close>

lemma process_reaches_validation:
  assumes "truthy_str (apiVersion r)" and "kind r = Some k" and "k \<noteq> []" and "k \<noteq> ''Pragma''"
    and "name r = Some n"
  shows "process env c (Some r) =
           (case validate_object env (save_source (c\<lparr>current_resource := Some r\<rparr>) r) r of
              Inl e \<Rightarrow> Inl e
            | Inr (c3, rc) \<Rightarrow>
                if \<not> ok rc then Inr (c3, rc)
                else (case dispatch c3 r k of
                        Inl e \<Rightarrow> Inl e
                      | Inr c4 \<Rightarrow> Inr (c4\<lparr>current_resource := None\<rparr>,
                                       OK (k @ '' object processed successfully''))))"
  using assms by (simp add: process_def Let_def)

text \<open>
  C7. A resource with its required fields whose apiVersion does not begin with
  \<^verbatim>\<open>ambassador/\<close> fails validation with the unsupported-apiVersion error, in every
  environment and every state, and the state comes back unchanged: no schema is looked
  up, in the cache or on disk. Through \<^verbatim>\<open>process\<close> the resource is recorded as a source and
  the same error is returned.
\<close>

theorem unsupported_apiVersion_rejected:
  "apiVersion r = Some av \<and> kind r = Some k \<and> name r = Some n \<and> \<not> startswith av ''ambassador/'' \<longrightarrow>
     validate_object env c r = Inr (c, fromError (''apiVersion '' @ av @ '' unsupported''))
     \<and> (\<forall>env' c'. validate_object env' c' r =
            Inr (c', fromError (''apiVersion '' @ av @ '' unsupported'')))
     \<and> (av \<noteq> [] \<and> k \<noteq> [] \<and> k \<noteq> ''Pragma'' \<longrightarrow>
          process env c (Some r) =
            Inr (save_source (c\<lparr>current_resource := Some r\<rparr>) r,
                 fromError (''apiVersion '' @ av @ '' unsupported'')))"
proof (intro impI conjI allI)
  assume h: "apiVersion r = Some av \<and> kind r = Some k \<and> name r = Some n \<and> \<not> startswith av ''ambassador/''"
  then show v: "validate_object env c r = Inr (c, fromError (''apiVersion '' @ av @ '' unsupported''))"
    by (simp add: validate_object_unsupported)
  from h show "validate_object env' c' r =
      Inr (c', fromError (''apiVersion '' @ av @ '' unsupported''))" for env' c'
    by (simp add: validate_object_unsupported)
  assume t: "av \<noteq> [] \<and> k \<noteq> [] \<and> k \<noteq> ''Pragma''"
  from h t have "truthy_str (apiVersion r)"
    by (simp add: truthy_str_def)
  with h t show "process env c (Some r) =
            Inr (save_source (c\<lparr>current_resource := Some r\<rparr>) r,
                 fromError (''apiVersion '' @ av @ '' unsupported''))"
    by (simp add: process_reaches_validation validate_object_unsupported)
qed

theorem unsupported_apiVersion_rejected_witness:
  "validate_object sample_env sample_config sample_unsupported =
     Inr (sample_config, fromError ''apiVersion getambassador.io/v1 unsupported'')
   \<and> validate_object strict_env sample_config sample_unsupported =
     Inr (sample_config, fromError ''apiVersion getambassador.io/v1 unsupported'')
   \<and> process strict_env sample_config (Some sample_unsupported) =
     Inr (save_source (sample_config\<lparr>current_resource := Some sample_unsupported\<rparr>) sample_unsupported,
          fromError ''apiVersion getambassador.io/v1 unsupported'')"
proof -
  have h: "apiVersion sample_unsupported = Some ''getambassador.io/v1''
      \<and> kind sample_unsupported = Some ''Mapping'' \<and> name sample_unsupported = Some ''m3''
      \<and> \<not> startswith ''getambassador.io/v1'' ''ambassador/''"
    by (simp add: sample_unsupported_def)
  have t: "''getambassador.io/v1'' \<noteq> [] \<and> ''Mapping'' \<noteq> [] \<and> ''Mapping'' \<noteq> ''Pragma''"
    by simp
  show ?thesis
    using unsupported_apiVersion_rejected [of sample_unsupported "''getambassador.io/v1''" "''Mapping''"
        "''m3''" sample_env sample_config]
      unsupported_apiVersion_rejected [of sample_unsupported "''getambassador.io/v1''" "''Mapping''"
        "''m3''" strict_env sample_config] h t
    by simp
qed

text \<open>
  C5. The version that \<^verbatim>\<open>validate_object\<close> uses is the piece of the apiVersion between its
  first and its second slash: the whole remainder after \<^verbatim>\<open>ambassador/\<close> when the remainder
  has no slash, and only the start of it otherwise. For \<^verbatim>\<open>ambassador/v1/beta\<close> the
  file read is \<^verbatim>\<open>schemas/v1/Mapping.schema\<close> and the cache key is \<^verbatim>\<open>v1-Mapping\<close>, where the
  remainder \<^verbatim>\<open>v1/beta\<close> would give \<^verbatim>\<open>schemas/v1/beta/Mapping.schema\<close> and \<^verbatim>\<open>v1/beta-Mapping\<close>.
\<close>

theorem schema_version_first_segment:
  "CHR ''/'' \<notin> set v \<longrightarrow>
     schema_version (''ambassador/'' @ v) = Inr v
     \<and> schema_version (''ambassador/'' @ v @ ''/'' @ w) = Inr v"
proof (intro impI conjI)
  assume v: "CHR ''/'' \<notin> set v"
  then show "schema_version (''ambassador/'' @ v) = Inr v"
    by (simp add: schema_version_prefix split_no_sep del: append.simps)
  from v have "split CHR ''/'' (v @ CHR ''/'' # w) = v # split CHR ''/'' w"
    by (rule split_Cons_sep)
  moreover have "v @ ''/'' @ w = v @ CHR ''/'' # w"
    by simp
  ultimately have "hd (split CHR ''/'' (v @ ''/'' @ w)) = v"
    by (simp only: list.sel)
  then show "schema_version (''ambassador/'' @ v @ ''/'' @ w) = Inr v"
    by (simp only: schema_version_prefix)
qed

theorem schema_version_first_segment_witness:
  "schema_version ''ambassador/v1/beta'' = Inr ''v1''
   \<and> validate_object v1_mapping_env sample_config sample_beta =
       Inr (sample_config\<lparr>schemas := [(''v1-Mapping'', sample_schema)]\<rparr>, OK ''valid Mapping'')"
proof -
  have "CHR ''/'' \<notin> set ''v1''" by simp
  then have a: "schema_version ''ambassador/v1/beta'' = Inr ''v1''"
    using schema_version_first_segment [of "''v1''" "''beta''"] by simp
  have b: "validate_object v1_mapping_env sample_config sample_beta =
       Inr (sample_config\<lparr>schemas := [(''v1-Mapping'', sample_schema)]\<rparr>, OK ''valid Mapping'')"
    by (simp add: validate_object_def sample_beta_def a find_schema_def schema_key_def
          schema_path_def endswith_def sample_config_def v1_mapping_env_def truthy_opt_def
          sample_schema_def apply_schema_def)
  from a b show ?thesis by simp
qed








subsection \<open>Loading\<close>

lemma apply_override_fields:
  "rkey (apply_override c r) = rkey r" "payload (apply_override c r) = payload r"
  "apiVersion (apply_override c r) = apiVersion r" "kind (apply_override c r) = kind r"
  "name (apply_override c r) = name r" "r_errors (apply_override c r) = r_errors r"
  by (simp_all add: apply_override_def split: option.splits)

lemma excluded_apply_override: "excluded env (apply_override c r) = excluded env r"
  by (simp add: excluded_def allowed_ids_def apply_override_fields)

lemma load_one_excluded:
  "excluded env r \<Longrightarrow>
   load_one env c r =
     Inr (Return (log DEBUG (LoadAllSkip (apply_override c r) (ambassador_id env)
                               (as_list (allowed_ids r))) c))"
  by (simp add: load_one_def Let_def excluded_apply_override allowed_ids_def apply_override_fields)

lemma load_one_admitted:
  "\<not> excluded env r \<Longrightarrow>
   load_one env c r =
     (case process env (log DEBUG (LoadAllAt (apply_override c r) (location (apply_override c r))) c)
             (Some (apply_override c r)) of
        Inl e \<Rightarrow> Inl e
      | Inr (c2, rc) \<Rightarrow>
          if ok rc then Inr (Next c2)
          else (case post_error c2 rc (Some (apply_override c r)) of
                  Inl e \<Rightarrow> Inl e
                | Inr c3 \<Rightarrow> Inr (Next c3)))"
  by (simp add: load_one_def Let_def excluded_apply_override split: sum.splits prod.splits)

lemma load_loop_append:
  "load_loop env c (xs @ ys) =
     (case load_loop env c xs of
        Inl e \<Rightarrow> Inl e
      | Inr (Return c1) \<Rightarrow> Inr (Return c1)
      | Inr (Next c1) \<Rightarrow> load_loop env c1 ys)"
proof (induction xs arbitrary: c)
  case Nil
  then show ?case by simp
next
  case (Cons x xs)
  then show ?case
    by (simp split: sum.splits flow.splits)
qed

text \<open>
  C1. A resource whose \<^verbatim>\<open>ambassador_id\<close> is truthy and does not include the configured
  identity is not processed or stored: what \<^verbatim>\<open>load_all\<close> adds to the state reached before it
  is the one debug line, so no source, no bucket entry and no error. But the loop body ends
  with \<^verbatim>\<open>return\<close>, so \<^verbatim>\<open>load_all\<close> is over at that resource: whatever follows it in the
  sequence is never looked at, and the result is the same for every continuation.
\<close>

theorem load_all_returns_at_excluded:
  "load_loop env c before = Inr (Next c1) \<and> excluded env r \<longrightarrow>
     load_all env c (before @ r # after) =
       Inr (log DEBUG (LoadAllSkip (apply_override c1 r) (ambassador_id env)
                         (as_list (allowed_ids r))) c1)"
  by (simp add: load_all_def load_loop_append load_one_excluded)

theorem load_all_returns_at_excluded_witness:
  "load_all sample_env sample_config [sample_foreign, sample_mapping] =
     Inr (log DEBUG (LoadAllSkip sample_foreign ''default'' [JStr ''other'']) sample_config)
   \<and> stored (log DEBUG (LoadAllSkip sample_foreign ''default'' [JStr ''other'']) sample_config)
        ''mappings'' ''m1'' = None
   \<and> (\<exists>c. load_all sample_env sample_config [sample_mapping] = Inr c
         \<and> stored c ''mappings'' ''m1'' = Some sample_mapping)"
proof -
  have h: "load_loop sample_env sample_config [] = Inr (Next sample_config)
      \<and> excluded sample_env sample_foreign"
    by (simp add: excluded_def allowed_ids_def as_list_def sample_foreign_def sample_env_def)
  have "load_all sample_env sample_config ([] @ sample_foreign # [sample_mapping]) =
     Inr (log DEBUG (LoadAllSkip (apply_override sample_config sample_foreign)
            (ambassador_id sample_env) (as_list (allowed_ids sample_foreign))) sample_config)"
    using load_all_returns_at_excluded [of sample_env sample_config "[]" sample_config
        sample_foreign "[sample_mapping]"] h
    by blast
  then have a: "load_all sample_env sample_config [sample_foreign, sample_mapping] =
     Inr (log DEBUG (LoadAllSkip sample_foreign ''default'' [JStr ''other'']) sample_config)"
    by (simp add: apply_override_def allowed_ids_def as_list_def sample_config_def
          sample_foreign_def sample_env_def)
  have b: "stored (log DEBUG (LoadAllSkip sample_foreign ''default'' [JStr ''other'']) sample_config)
        ''mappings'' ''m1'' = None"
    by (simp add: stored_def get_config_def log_def sample_config_def)
  have c: "\<exists>c. load_all sample_env sample_config [sample_mapping] = Inr c
         \<and> stored c ''mappings'' ''m1'' = Some sample_mapping"
    by (simp add: model_defs sample_defs)
  from a b c show ?thesis by blast
qed

text \<open>
  C10. A resource whose \<^verbatim>\<open>ambassador_id\<close> is present and falsy is never excluded, whatever
  the configured identity: the loop hands it (with any location override applied) to
  \<^verbatim>\<open>process\<close>, posts the error if \<^verbatim>\<open>process\<close> reports one, and goes on with the rest.
\<close>

theorem falsy_ambassador_id_bypasses_filter:
  "map_of (payload r) ''ambassador_id'' = Some v \<and> \<not> truthy v \<longrightarrow>
     \<not> excluded env r
     \<and> load_loop env c (r # rs) =
         (case process env (log DEBUG (LoadAllAt (apply_override c r) (location (apply_override c r))) c)
                 (Some (apply_override c r)) of
            Inl e \<Rightarrow> Inl e
          | Inr (c2, rc) \<Rightarrow>
              if ok rc then load_loop env c2 rs
              else (case post_error c2 rc (Some (apply_override c r)) of
                      Inl e \<Rightarrow> Inl e
                    | Inr c3 \<Rightarrow> load_loop env c3 rs))"
proof (intro impI conjI)
  assume h: "map_of (payload r) ''ambassador_id'' = Some v \<and> \<not> truthy v"
  then show ne: "\<not> excluded env r"
    by (simp add: excluded_def allowed_ids_def)
  show "load_loop env c (r # rs) =
         (case process env (log DEBUG (LoadAllAt (apply_override c r) (location (apply_override c r))) c)
                 (Some (apply_override c r)) of
            Inl e \<Rightarrow> Inl e
          | Inr (c2, rc) \<Rightarrow>
              if ok rc then load_loop env c2 rs
              else (case post_error c2 rc (Some (apply_override c r)) of
                      Inl e \<Rightarrow> Inl e
                    | Inr c3 \<Rightarrow> load_loop env c3 rs))"
    by (simp add: load_one_admitted [OF ne] split: sum.splits prod.splits)
qed

theorem falsy_ambassador_id_bypasses_filter_witness:
  "\<not> excluded other_env sample_unowned
   \<and> (\<exists>c. load_all other_env sample_config [sample_unowned] = Inr c
         \<and> stored c ''mappings'' ''m6'' = Some sample_unowned
         \<and> map_of (sources c) ''g.yaml.1'' = Some sample_unowned
         \<and> errors c = [])"
proof -
  have h: "map_of (payload sample_unowned) ''ambassador_id'' = Some (JList []) \<and> \<not> truthy (JList [])"
    by (simp add: sample_unowned_def)
  note t = falsy_ambassador_id_bypasses_filter [of sample_unowned "JList []" other_env sample_config "[]"]
  from t h have a: "\<not> excluded other_env sample_unowned"
    by blast
  from t h have "load_loop other_env sample_config [sample_unowned] =
         (case process other_env (log DEBUG (LoadAllAt (apply_override sample_config sample_unowned)
                 (location (apply_override sample_config sample_unowned))) sample_config)
                 (Some (apply_override sample_config sample_unowned)) of
            Inl e \<Rightarrow> Inl e
          | Inr (c2, rc) \<Rightarrow>
              if ok rc then load_loop other_env c2 []
              else (case post_error c2 rc (Some (apply_override sample_config sample_unowned)) of
                      Inl e \<Rightarrow> Inl e
                    | Inr c3 \<Rightarrow> load_loop other_env c3 []))"
    by blast
  then have "\<exists>c. load_all other_env sample_config [sample_unowned] = Inr c
         \<and> stored c ''mappings'' ''m6'' = Some sample_unowned
         \<and> map_of (sources c) ''g.yaml.1'' = Some sample_unowned
         \<and> errors c = []"
    unfolding load_all_def
    by (simp add: model_defs sample_defs)
  with a show ?thesis by blast
qed

subsection \<open>Failed resources\<close>

lemma post_error_Some:
  "post_error c rc (Some r) =
     Inr (log ERROR (PostError (resource_post_error r (toDict rc)) rc)
           (c\<lparr>sources := AList.update (rkey r) (resource_post_error r (toDict rc)) (sources c),
              errors := AList.update (rkey r)
                 ((case map_of (errors c) (rkey r) of None \<Rightarrow> [] | Some es \<Rightarrow> es) @ [toDict rc])
                 (errors c)\<rparr>))"
  by (simp add: post_error_def Let_def save_source_def resource_post_error_def)

lemma handle_pragma_ok:
  "handle_pragma c r = Inr (c1, rc) \<Longrightarrow> rc = OK ''handled pragma object''"
  by (auto simp: handle_pragma_def Let_def split: sum.splits)

lemma validate_object_keeps:
  assumes "validate_object env c r = Inr (c1, rc)"
  shows "config c1 = config c" and "sources c1 = sources c" and "errors c1 = errors c"
    and "location_overrides c1 = location_overrides c"
    and "current_resource c1 = current_resource c" and "fatal_errors c1 = fatal_errors c"
proof -
  from assms have e: "c1 = c\<lparr>schemas := schemas c1, logger := logger c1\<rparr>"
    by (rule validate_object_frame)
  show "config c1 = config c" using arg_cong [OF e, of config] by simp
  show "sources c1 = sources c" using arg_cong [OF e, of sources] by simp
  show "errors c1 = errors c" using arg_cong [OF e, of errors] by simp
  show "location_overrides c1 = location_overrides c"
    using arg_cong [OF e, of location_overrides] by simp
  show "current_resource c1 = current_resource c"
    using arg_cong [OF e, of current_resource] by simp
  show "fatal_errors c1 = fatal_errors c" using arg_cong [OF e, of fatal_errors] by simp
qed

lemma process_failure_frame:
  assumes "process env c (Some r) = Inr (c2, rc)" and "\<not> ok rc"
  shows "config c2 = config c \<and> errors c2 = errors c"
proof (cases "\<exists>k n. truthy_str (apiVersion r) \<and> kind r = Some k \<and> k \<noteq> [] \<and> k \<noteq> ''Pragma''
                 \<and> name r = Some n")
  case True
  then obtain k n where f: "truthy_str (apiVersion r)" "kind r = Some k" "k \<noteq> []"
      "k \<noteq> ''Pragma''" "name r = Some n"
    by blast
  from assms obtain c3 where
    v: "validate_object env (save_source (c\<lparr>current_resource := Some r\<rparr>) r) r = Inr (c3, rc)"
    and c2: "c2 = c3"
    by (auto simp: process_reaches_validation [OF f] split: sum.splits prod.splits if_splits)
  from validate_object_keeps(1,3) [OF v] have "config c3 = config c \<and> errors c3 = errors c"
    by (simp add: save_source_def)
  with c2 show ?thesis by simp
next
  case False
  with assms show ?thesis
    by (auto simp: process_def Let_def truthy_str_def split: option.splits if_splits
             dest: handle_pragma_ok)
qed

lemma process_missing_field:
  assumes "\<not> truthy_str (apiVersion r) \<or> \<not> truthy_str (kind r)
           \<or> (kind r \<noteq> Some ''Pragma'' \<and> name r = None)"
  shows "\<exists>m. process env c (Some r) = Inr (c\<lparr>current_resource := Some r\<rparr>, fromError m)
             \<and> m \<in> {''need apiVersion'', ''need kind'', ''need name''}"
  using assms by (auto simp: process_def Let_def truthy_str_def split: option.splits)

lemma process_validation_fails:
  assumes f: "truthy_str (apiVersion r)" "truthy_str (kind r)" "kind r \<noteq> Some ''Pragma''"
      "name r \<noteq> None"
    and v: "validate_object env c r = Inr (c3, rc)" and nok: "\<not> ok rc"
    and that: "schemas c' = schemas c" "schema_dir_path c' = schema_dir_path c"
  shows "\<exists>c2. process env c' (Some r) = Inr (c2, rc)"
proof -
  from f obtain k n where g: "kind r = Some k" "k \<noteq> []" "k \<noteq> ''Pragma''" "name r = Some n"
    by (auto simp: truthy_str_def split: option.splits)
  let ?c = "save_source (c'\<lparr>current_resource := Some r\<rparr>) r"
  have "map_sum id snd (validate_object env ?c r) = map_sum id snd (validate_object env c r)"
    using that by (intro validate_object_verdict) (simp_all add: save_source_def)
  with v obtain c4 where "validate_object env ?c r = Inr (c4, rc)"
    by (cases "validate_object env ?c r") auto
  with nok show ?thesis
    by (simp add: process_reaches_validation [OF f(1) g])
qed

text \<open>
  C4. Take a resource that the ownership filter lets through to \<^verbatim>\<open>process\<close>. If it lacks an
  apiVersion or a kind (absent or empty), or is not a Pragma and lacks a name, or has them
  and fails validation, then the loop body of \<^verbatim>\<open>load_all\<close> goes on to the next resource
  with the resource recorded in \<open>sources\<close> under its rkey (carrying the error that
  \<^verbatim>\<open>post_error\<close> attached), the error appended to the ledger under the rkey, and \<open>config\<close>
  exactly as it was: the resource is in no bucket.
\<close>

theorem failed_resource_recorded_not_stored:
  "\<not> excluded env r \<and>
   (\<not> truthy_str (apiVersion r) \<or> \<not> truthy_str (kind r)
    \<or> (kind r \<noteq> Some ''Pragma'' \<and> name r = None)
    \<or> (truthy_str (apiVersion r) \<and> truthy_str (kind r) \<and> kind r \<noteq> Some ''Pragma''
        \<and> name r \<noteq> None
        \<and> (\<exists>c3 rc. validate_object env c (apply_override c r) = Inr (c3, rc) \<and> \<not> ok rc)))
   \<longrightarrow> (\<exists>c1 rc. load_one env c r = Inr (Next c1) \<and> \<not> ok rc
          \<and> map_of (sources c1) (rkey r) =
              Some (resource_post_error (apply_override c r) (toDict rc))
          \<and> (\<exists>es. map_of (errors c1) (rkey r) = Some (es @ [toDict rc]))
          \<and> config c1 = config c)"
proof (intro impI)
  let ?r = "apply_override c r"
  let ?c = "log DEBUG (LoadAllAt ?r (location ?r)) c"
  assume h: "\<not> excluded env r \<and>
   (\<not> truthy_str (apiVersion r) \<or> \<not> truthy_str (kind r)
    \<or> (kind r \<noteq> Some ''Pragma'' \<and> name r = None)
    \<or> (truthy_str (apiVersion r) \<and> truthy_str (kind r) \<and> kind r \<noteq> Some ''Pragma''
        \<and> name r \<noteq> None
        \<and> (\<exists>c3 rc. validate_object env c ?r = Inr (c3, rc) \<and> \<not> ok rc)))"
  have "\<exists>c2 rc. process env ?c (Some ?r) = Inr (c2, rc) \<and> \<not> ok rc"
  proof (cases "\<not> truthy_str (apiVersion r) \<or> \<not> truthy_str (kind r)
      \<or> (kind r \<noteq> Some ''Pragma'' \<and> name r = None)")
    case True
    then have "\<not> truthy_str (apiVersion ?r) \<or> \<not> truthy_str (kind ?r)
        \<or> (kind ?r \<noteq> Some ''Pragma'' \<and> name ?r = None)"
      by (simp add: apply_override_fields)
    from process_missing_field [OF this, of env ?c] show ?thesis
      by auto
  next
    case False
    with h obtain c3 rc where f: "truthy_str (apiVersion ?r)" "truthy_str (kind ?r)"
        "kind ?r \<noteq> Some ''Pragma''" "name ?r \<noteq> None"
      and v: "validate_object env c ?r = Inr (c3, rc)" and nok: "\<not> ok rc"
      by (auto simp: apply_override_fields)
    have "\<exists>c2. process env ?c (Some ?r) = Inr (c2, rc)"
      by (rule process_validation_fails [OF f v nok]) (simp_all add: log_def)
    with nok show ?thesis by blast
  qed
  then obtain c2 rc where p: "process env ?c (Some ?r) = Inr (c2, rc)" and nok: "\<not> ok rc"
    by blast
  from process_failure_frame [OF p nok] have fr: "config c2 = config c" "errors c2 = errors c"
    by (simp_all add: log_def)
  let ?c1 = "log ERROR (PostError (resource_post_error ?r (toDict rc)) rc)
           (c2\<lparr>sources := AList.update (rkey ?r) (resource_post_error ?r (toDict rc)) (sources c2),
              errors := AList.update (rkey ?r)
                 ((case map_of (errors c2) (rkey ?r) of None \<Rightarrow> [] | Some es \<Rightarrow> es) @ [toDict rc])
                 (errors c2)\<rparr>)"
  from h p nok have l: "load_one env c r = Inr (Next ?c1)"
    by (simp add: load_one_admitted post_error_Some)
  have s: "map_of (sources ?c1) (rkey r) = Some (resource_post_error ?r (toDict rc))"
    by (simp add: log_def update_conv' apply_override_fields)
  have e: "\<exists>es. map_of (errors ?c1) (rkey r) = Some (es @ [toDict rc])"
    by (simp add: log_def update_conv' apply_override_fields)
  have g: "config ?c1 = config c"
    by (simp add: log_def fr)
  from l nok s e g show "\<exists>c1 rc. load_one env c r = Inr (Next c1) \<and> \<not> ok rc
          \<and> map_of (sources c1) (rkey r) =
              Some (resource_post_error (apply_override c r) (toDict rc))
          \<and> (\<exists>es. map_of (errors c1) (rkey r) = Some (es @ [toDict rc]))
          \<and> config c1 = config c"
    by blast
qed

theorem failed_resource_recorded_not_stored_witness:
  "(\<exists>c1 rc. load_one sample_env sample_config sample_nameless = Inr (Next c1) \<and> \<not> ok rc
      \<and> map_of (sources c1) ''h.yaml.1'' = Some (resource_post_error sample_nameless (toDict rc))
      \<and> (\<exists>es. map_of (errors c1) ''h.yaml.1'' = Some (es @ [toDict rc]))
      \<and> config c1 = [])
   \<and> (\<exists>c1 rc. load_one strict_env sample_config sample_incomplete = Inr (Next c1) \<and> \<not> ok rc
      \<and> map_of (sources c1) ''f.yaml.1'' = Some (resource_post_error sample_incomplete (toDict rc))
      \<and> (\<exists>es. map_of (errors c1) ''f.yaml.1'' = Some (es @ [toDict rc]))
      \<and> config c1 = [])"
proof -
  have o: "apply_override sample_config sample_nameless = sample_nameless"
      "apply_override sample_config sample_incomplete = sample_incomplete"
    by (simp_all add: apply_override_def sample_config_def)
  have h1: "\<not> excluded sample_env sample_nameless \<and>
     (\<not> truthy_str (apiVersion sample_nameless) \<or> \<not> truthy_str (kind sample_nameless)
      \<or> (kind sample_nameless \<noteq> Some ''Pragma'' \<and> name sample_nameless = None)
      \<or> (truthy_str (apiVersion sample_nameless) \<and> truthy_str (kind sample_nameless)
          \<and> kind sample_nameless \<noteq> Some ''Pragma'' \<and> name sample_nameless \<noteq> None
          \<and> (\<exists>c3 rc. validate_object sample_env sample_config
                 (apply_override sample_config sample_nameless) = Inr (c3, rc) \<and> \<not> ok rc)))"
    by (simp add: excluded_def allowed_ids_def as_list_def sample_nameless_def sample_env_def)
  have v: "validate_object strict_env sample_config sample_incomplete =
     Inr (sample_config\<lparr>schemas := [(''v0-Mapping'', sample_schema)]\<rparr>,
          fromError ''not a valid Mapping: service is a required property'')"
    by (simp add: model_defs sample_defs)
  then have "\<exists>c3 rc. validate_object strict_env sample_config
                 (apply_override sample_config sample_incomplete) = Inr (c3, rc) \<and> \<not> ok rc"
    using ok.simps(2) o(2) by metis
  then have h2: "\<not> excluded strict_env sample_incomplete \<and>
     (\<not> truthy_str (apiVersion sample_incomplete) \<or> \<not> truthy_str (kind sample_incomplete)
      \<or> (kind sample_incomplete \<noteq> Some ''Pragma'' \<and> name sample_incomplete = None)
      \<or> (truthy_str (apiVersion sample_incomplete) \<and> truthy_str (kind sample_incomplete)
          \<and> kind sample_incomplete \<noteq> Some ''Pragma'' \<and> name sample_incomplete \<noteq> None
          \<and> (\<exists>c3 rc. validate_object strict_env sample_config
                 (apply_override sample_config sample_incomplete) = Inr (c3, rc) \<and> \<not> ok rc)))"
    by (simp add: excluded_def allowed_ids_def as_list_def sample_incomplete_def strict_env_def
          truthy_str_def)
  have r: "rkey sample_nameless = ''h.yaml.1''" "rkey sample_incomplete = ''f.yaml.1''"
      "config sample_config = []"
    by (simp_all add: sample_nameless_def sample_incomplete_def sample_config_def)
  show ?thesis
    using failed_resource_recorded_not_stored [of sample_env sample_nameless sample_config] h1
      failed_resource_recorded_not_stored [of strict_env sample_incomplete sample_config] h2
    unfolding o r by blast
qed

subsection \<open>Handlers\<close>

text \<open>
  C8. When the handler that \<^verbatim>\<open>process\<close> invokes for a resource raises an exception, the
  result of \<^verbatim>\<open>process\<close> is that exception and not a status. And when \<^verbatim>\<open>process\<close> raises for
  a resource that \<^verbatim>\<open>load_all\<close> hands to it, \<^verbatim>\<open>load_all\<close> raises the same exception, whatever
  resources follow: no error is posted for the resource and the pass is over.
\<close>

theorem handler_exception_propagates:
  "(truthy_str (apiVersion r) \<and> kind r = Some k \<and> k \<noteq> [] \<and> k \<noteq> ''Pragma'' \<and> name r = Some n
    \<and> validate_object env (save_source (c\<lparr>current_resource := Some r\<rparr>) r) r = Inr (c3, rc)
    \<and> ok rc \<and> dispatch c3 r k = Inl e
    \<longrightarrow> process env c (Some r) = Inl e)
   \<and> (load_loop env c0 before = Inr (Next c1) \<and> \<not> excluded env r'
       \<and> process env (log DEBUG (LoadAllAt (apply_override c1 r') (location (apply_override c1 r'))) c1)
            (Some (apply_override c1 r')) = Inl e'
    \<longrightarrow> load_all env c0 (before @ r' # after) = Inl e')"
proof (intro conjI impI)
  assume "truthy_str (apiVersion r) \<and> kind r = Some k \<and> k \<noteq> [] \<and> k \<noteq> ''Pragma'' \<and> name r = Some n
    \<and> validate_object env (save_source (c\<lparr>current_resource := Some r\<rparr>) r) r = Inr (c3, rc)
    \<and> ok rc \<and> dispatch c3 r k = Inl e"
  then show "process env c (Some r) = Inl e"
    by (simp add: process_reaches_validation)
next
  assume "load_loop env c0 before = Inr (Next c1) \<and> \<not> excluded env r'
       \<and> process env (log DEBUG (LoadAllAt (apply_override c1 r') (location (apply_override c1 r'))) c1)
            (Some (apply_override c1 r')) = Inl e'"
  then show "load_all env c0 (before @ r' # after) = Inl e'"
    by (simp add: load_all_def load_loop_append load_one_admitted)
qed

theorem handler_exception_propagates_witness:
  "process sample_env loaded_config (Some sample_mapping) = Inl (AlreadyPresent sample_mapping)
   \<and> load_all sample_env sample_config [sample_mapping, sample_mapping, sample_auth] =
       Inl (AlreadyPresent sample_mapping)"
proof -
  note t = handler_exception_propagates [where r = sample_mapping and k = "''Mapping''"
      and n = "''m1''" and env = sample_env and e = "AlreadyPresent sample_mapping"
      and r' = sample_mapping and e' = "AlreadyPresent sample_mapping"]
  have f: "truthy_str (apiVersion sample_mapping)" "kind sample_mapping = Some ''Mapping''"
      "''Mapping'' \<noteq> []" "''Mapping'' \<noteq> ''Pragma''" "name sample_mapping = Some ''m1''"
    by (simp_all add: sample_mapping_def truthy_str_def)
  have raises: "\<exists>c3 rc. validate_object sample_env
          (save_source (c\<lparr>current_resource := Some sample_mapping\<rparr>) sample_mapping) sample_mapping
            = Inr (c3, rc) \<and> ok rc \<and> dispatch c3 sample_mapping ''Mapping'' = Inl (AlreadyPresent sample_mapping)"
    if "config c = [(''mappings'', [(''m1'', sample_mapping)])]" "schemas c = []" for c
    using that by (simp add: model_defs sample_mapping_def sample_env_def)
  have p: "process sample_env c (Some sample_mapping) = Inl (AlreadyPresent sample_mapping)"
    if "config c = [(''mappings'', [(''m1'', sample_mapping)])]" "schemas c = []" for c
    using t [where c = c] f raises [OF that] by blast
  have a: "process sample_env loaded_config (Some sample_mapping) = Inl (AlreadyPresent sample_mapping)"
    by (rule p) (simp_all add: loaded_config_def sample_config_def)
  obtain c1 where l: "load_loop sample_env sample_config [sample_mapping] = Inr (Next c1)"
    and c1: "config c1 = [(''mappings'', [(''m1'', sample_mapping)])]" "schemas c1 = []"
    by (simp add: model_defs sample_defs)
  have ne: "\<not> excluded sample_env sample_mapping"
    by (simp add: excluded_def allowed_ids_def as_list_def sample_mapping_def sample_env_def)
  have o: "apply_override c1 sample_mapping = sample_mapping"
    using l by (simp add: model_defs sample_defs) auto
  have "process sample_env (log DEBUG (LoadAllAt sample_mapping (location sample_mapping)) c1)
            (Some sample_mapping) = Inl (AlreadyPresent sample_mapping)"
    by (rule p) (simp_all add: log_def c1)
  with t [where ?c0.0 = sample_config and before = "[sample_mapping]" and ?c1.0 = c1
       and after = "[sample_auth]"] l ne o
  have "load_all sample_env sample_config ([sample_mapping] @ sample_mapping # [sample_auth]) =
       Inl (AlreadyPresent sample_mapping)"
    by simp
  with a show ?thesis by simp
qed

lemma find_schema_logger:
  "\<exists>ls. logger (fst (find_schema env c v k)) = logger c @ ls \<and> ERROR \<notin> fst ` set ls"
  by (simp add: find_schema_def Let_def log_def split: load_result.splits)

lemma validate_object_logger:
  assumes "validate_object env c r = Inr (c1, rc)"
  shows "\<exists>ls. logger c1 = logger c @ ls \<and> ERROR \<notin> fst ` set ls"
proof (cases "\<exists>av k n. apiVersion r = Some av \<and> startswith av ''ambassador/'' \<and> kind r = Some k
                \<and> name r = Some n")
  case True
  then obtain av k n where f: "apiVersion r = Some av" "kind r = Some k" "name r = Some n"
    and sw: "startswith av ''ambassador/''"
    by blast
  from sw obtain v where v: "schema_version av = Inr v"
    using schema_version_total by blast
  from assms have "c1 = fst (find_schema env c v k)"
    by (simp add: validate_object_supported [OF f sw v] split: sum.splits)
  then show ?thesis
    using find_schema_logger [of env c v k] by simp
next
  case False
  with assms have "c1 = c"
    by (auto simp: validate_object_def split: option.splits if_splits)
  then show ?thesis by simp
qed

lemma dispatch_no_handler:
  assumes "getattr_handler (''handle_'' @ lower k) = None" and "kind r = Some k" and "name r = Some n"
  shows "dispatch c r k =
     (if stored c k n \<noteq> None then Inl (AlreadyPresent r)
      else Inr ((log WARNING (NoHandler r k) c)
                 \<lparr>config := AList.update k
                    (AList.update n r (case get_config c k of None \<Rightarrow> [] | Some s \<Rightarrow> s))
                    (config c)\<rparr>))"
  using assms
  by (simp add: dispatch_def save_object_def safe_store_eq stored_def get_config_def log_def)

text \<open>
  C9, as amended. Take a resource with an apiVersion, a kind other than Pragma and a name,
  that validates, whose lowercased kind names no handler method, and whose name is not yet
  in the bucket named by its kind. Then \<^verbatim>\<open>process\<close> returns the success status, the bucket
  named by the kind holds the resource under its name, the error ledger is as it was, and
  the last line that \<^verbatim>\<open>process\<close> logged is the warning that there is no handler, with no
  line of level error before it.
\<close>

theorem unhandled_kind_saved_with_warning:
  "truthy_str (apiVersion r) \<and> kind r = Some k \<and> k \<noteq> [] \<and> k \<noteq> ''Pragma'' \<and> name r = Some n
   \<and> validate_object env c r = Inr (c3, rc) \<and> ok rc
   \<and> getattr_handler (''handle_'' @ lower k) = None \<and> stored c k n = None
   \<longrightarrow> (\<exists>c4 ls. process env c (Some r) = Inr (c4, OK (k @ '' object processed successfully''))
          \<and> stored c4 k n = Some r
          \<and> errors c4 = errors c
          \<and> logger c4 = logger c @ ls @ [(WARNING, NoHandler r k)]
          \<and> ERROR \<notin> fst ` set ls)"
proof (intro impI)
  assume h: "truthy_str (apiVersion r) \<and> kind r = Some k \<and> k \<noteq> [] \<and> k \<noteq> ''Pragma'' \<and> name r = Some n
   \<and> validate_object env c r = Inr (c3, rc) \<and> ok rc
   \<and> getattr_handler (''handle_'' @ lower k) = None \<and> stored c k n = None"
  let ?c = "save_source (c\<lparr>current_resource := Some r\<rparr>) r"
  have "map_sum id snd (validate_object env ?c r) = map_sum id snd (validate_object env c r)"
    by (intro validate_object_verdict) (simp_all add: save_source_def)
  with h obtain c3' where v: "validate_object env ?c r = Inr (c3', rc)"
    by (cases "validate_object env ?c r") auto
  from validate_object_keeps [OF v] have k: "config c3' = config c" "errors c3' = errors c"
    by (simp_all add: save_source_def)
  from validate_object_logger [OF v] obtain ls where
    ls: "logger c3' = logger c @ ls" "ERROR \<notin> fst ` set ls"
    by (auto simp: save_source_def)
  from h k have free: "stored c3' k n = None"
    by (simp add: stored_def get_config_def)
  let ?c4 = "(log WARNING (NoHandler r k) c3')
                 \<lparr>config := AList.update k
                    (AList.update n r (case get_config c3' k of None \<Rightarrow> [] | Some s \<Rightarrow> s))
                    (config c3'), current_resource := None\<rparr>"
  from h v free have p: "process env c (Some r) =
      Inr (?c4, OK (k @ '' object processed successfully''))"
    by (simp add: process_reaches_validation dispatch_no_handler)
  have s: "stored ?c4 k n = Some r"
    by (simp add: stored_def get_config_def log_def update_conv')
  have e: "errors ?c4 = errors c"
    by (simp add: log_def k)
  have l: "logger ?c4 = logger c @ ls @ [(WARNING, NoHandler r k)]"
    by (simp add: log_def ls)
  from p s e l ls(2)
  show "\<exists>c4 ls. process env c (Some r) = Inr (c4, OK (k @ '' object processed successfully''))
          \<and> stored c4 k n = Some r
          \<and> errors c4 = errors c
          \<and> logger c4 = logger c @ ls @ [(WARNING, NoHandler r k)]
          \<and> ERROR \<notin> fst ` set ls"
    by blast
qed

theorem unhandled_kind_saved_with_warning_witness:
  "\<exists>c4 ls. process sample_env sample_config (Some sample_widget) =
              Inr (c4, OK ''Widget object processed successfully'')
      \<and> stored c4 ''Widget'' ''w1'' = Some sample_widget
      \<and> errors c4 = []
      \<and> logger c4 = ls @ [(WARNING, NoHandler sample_widget ''Widget'')]
      \<and> ERROR \<notin> fst ` set ls"
proof -
  have v: "validate_object sample_env sample_config sample_widget =
      Inr (log DEBUG (NoSchema ''schemas/v0/Widget.schema'') sample_config, OK ''valid Widget'')"
    by (simp add: model_defs sample_defs)
  have h: "truthy_str (apiVersion sample_widget) \<and> kind sample_widget = Some ''Widget''
      \<and> ''Widget'' \<noteq> [] \<and> ''Widget'' \<noteq> ''Pragma'' \<and> name sample_widget = Some ''w1''
      \<and> validate_object sample_env sample_config sample_widget =
          Inr (log DEBUG (NoSchema ''schemas/v0/Widget.schema'') sample_config, OK ''valid Widget'')
      \<and> ok (OK ''valid Widget'')
      \<and> getattr_handler (''handle_'' @ lower ''Widget'') = None
      \<and> stored sample_config ''Widget'' ''w1'' = None"
    using v
    by (simp add: sample_widget_def truthy_str_def getattr_handler_def lower_def lower_char_def
          stored_def get_config_def sample_config_def)
  have e: "errors sample_config = []" "logger sample_config = []"
    by (simp_all add: sample_config_def)
  show ?thesis
    using unhandled_kind_saved_with_warning [of sample_widget "''Widget''" "''w1''" sample_env
        sample_config "log DEBUG (NoSchema ''schemas/v0/Widget.schema'') sample_config"
        "OK ''valid Widget''"] h
    unfolding e by simp
qed

text \<open>
  The claim as stated, for every valid resource without a handler, fails when the bucket
  already holds the name: the generic store is \<^verbatim>\<open>safe_store\<close>, which raises, and \<^verbatim>\<open>process\<close>
  raises with it instead of returning success.
\<close>

theorem unhandled_kind_duplicate_raises:
  "getattr_handler (''handle_'' @ lower ''Widget'') = None
   \<and> validate_object sample_env widget_config sample_widget =
       Inr (log DEBUG (NoSchema ''schemas/v0/Widget.schema'') widget_config, OK ''valid Widget'')
   \<and> process sample_env widget_config (Some sample_widget) = Inl (AlreadyPresent sample_widget)"
  by (simp add: model_defs sample_defs)

subsection \<open>Pragma documents\<close>

lemma pragma_keys_source:
  assumes "map_of (payload p) ''source'' = Some S"
  shows "\<exists>c1. pragma_keys c p ks = Inr c1
           \<and> schemas c1 = schemas c \<and> config c1 = config c \<and> sources c1 = sources c
           \<and> errors c1 = errors c
           \<and> (if ''source'' \<in> set ks then override_source c1 (rkey p) = Some S
               else location_overrides c1 = location_overrides c)"
proof (induction ks arbitrary: c)
  case Nil
  then show ?case by simp
next
  case (Cons key ks)
  show ?case
  proof (cases "key = ''source''")
    case False
    with Cons [of c] show ?thesis by simp
  next
    case True
    let ?c = "log DEBUG (PragmaOverride (rkey p) S)
                (c\<lparr>location_overrides :=
                     AList.update (rkey p)
                       (AList.update ''source'' S
                          (case map_of (location_overrides c) (rkey p) of
                             None \<Rightarrow> [] | Some ov \<Rightarrow> ov))
                       (location_overrides c)\<rparr>)"
    have step: "pragma_keys c p (key # ks) = pragma_keys ?c p ks"
      using True assms by (simp add: Let_def)
    have here: "override_source ?c (rkey p) = Some S"
      by (simp add: override_source_def log_def update_conv')
    from Cons [of ?c] obtain c1 where c1: "pragma_keys ?c p ks = Inr c1"
      "schemas c1 = schemas ?c" "config c1 = config ?c" "sources c1 = sources ?c"
      "errors c1 = errors ?c"
      "if ''source'' \<in> set ks then override_source c1 (rkey p) = Some S
       else location_overrides c1 = location_overrides ?c"
      by blast
    from c1(6) here have "override_source c1 (rkey p) = Some S"
      by (auto simp: override_source_def split: if_splits)
    with c1 step True show ?thesis
      by (simp add: log_def)
  qed
qed

lemma handle_pragma_source:
  assumes "map_of (payload p) ''source'' = Some S"
  shows "\<exists>c1. handle_pragma c p = Inr (c1, OK ''handled pragma object'')
           \<and> override_source c1 (rkey p) = Some S
           \<and> schemas c1 = schemas c \<and> config c1 = config c \<and> sources c1 = sources c
           \<and> errors c1 = errors c"
proof -
  let ?ks = "sort (filter (\<lambda>x. x \<noteq> ''apiVersion'' \<and> x \<noteq> ''kind'') (sort (keys p)))"
  from assms have "(''source'', S) \<in> set (payload p)"
    by (rule map_of_SomeD)
  then have "''source'' \<in> fst ` set (payload p)"
    by force
  then have "''source'' \<in> set (keys p)"
    by (simp add: keys_def)
  then have m: "''source'' \<in> set ?ks"
    by simp
  from pragma_keys_source [OF assms, of "log DEBUG (PragmaKeys ?ks) c" ?ks] m
  obtain c1 where "pragma_keys (log DEBUG (PragmaKeys ?ks) c) p ?ks = Inr c1"
    "schemas c1 = schemas c" "config c1 = config c" "sources c1 = sources c"
    "errors c1 = errors c" "override_source c1 (rkey p) = Some S"
    by (auto simp: log_def)
  then show ?thesis
    by (simp add: handle_pragma_def Let_def)
qed

lemma apply_override_source:
  "override_source c (rkey r) = Some S \<Longrightarrow> apply_override c r = r\<lparr>location := S\<rparr>"
  by (auto simp: override_source_def apply_override_def split: option.splits)

text \<open>
  C3. For a resource with a \<^verbatim>\<open>source\<close> key of value \<open>S\<close>, \<^verbatim>\<open>handle_pragma\<close> returns its success
  status with \<^verbatim>\<open>location_overrides[rkey]['source']\<close> set to \<open>S\<close>, and leaves the schema cache,
  the buckets, the sources and the error ledger as they were: nothing is validated and
  nothing is stored. \<^verbatim>\<open>process\<close> of a document of kind Pragma that has an apiVersion is this
  call and nothing else. And in every state that holds the override, \<^verbatim>\<open>load_all\<close> sets the
  location of a resource of that rkey to \<open>S\<close> first: the resource it tests for ownership,
  logs, passes to \<^verbatim>\<open>process\<close> and to \<^verbatim>\<open>post_error\<close> is the one with location \<open>S\<close>.
\<close>

theorem pragma_source_overrides_location:
  "map_of (payload p) ''source'' = Some S \<longrightarrow>
     (\<exists>c1. handle_pragma c p = Inr (c1, OK ''handled pragma object'')
         \<and> override_source c1 (rkey p) = Some S
         \<and> schemas c1 = schemas c \<and> config c1 = config c \<and> sources c1 = sources c
         \<and> errors c1 = errors c)
     \<and> (kind p = Some ''Pragma'' \<and> truthy_str (apiVersion p) \<longrightarrow>
          process env c (Some p) = handle_pragma (c\<lparr>current_resource := Some p\<rparr>) p)
     \<and> (\<forall>c2 r. override_source c2 (rkey p) = Some S \<and> rkey r = rkey p \<longrightarrow>
          apply_override c2 r = r\<lparr>location := S\<rparr>
          \<and> load_one env c2 r =
              (if excluded env r then
                 Inr (Return (log DEBUG (LoadAllSkip (r\<lparr>location := S\<rparr>) (ambassador_id env)
                                           (as_list (allowed_ids r))) c2))
               else
                 (case process env (log DEBUG (LoadAllAt (r\<lparr>location := S\<rparr>) S) c2)
                         (Some (r\<lparr>location := S\<rparr>)) of
                    Inl e \<Rightarrow> Inl e
                  | Inr (c3, rc) \<Rightarrow>
                      if ok rc then Inr (Next c3)
                      else (case post_error c3 rc (Some (r\<lparr>location := S\<rparr>)) of
                              Inl e \<Rightarrow> Inl e
                            | Inr c4 \<Rightarrow> Inr (Next c4)))))"
proof (intro impI conjI allI)
  assume s: "map_of (payload p) ''source'' = Some S"
  then show "\<exists>c1. handle_pragma c p = Inr (c1, OK ''handled pragma object'')
         \<and> override_source c1 (rkey p) = Some S
         \<and> schemas c1 = schemas c \<and> config c1 = config c \<and> sources c1 = sources c
         \<and> errors c1 = errors c"
    by (rule handle_pragma_source)
next
  assume "kind p = Some ''Pragma'' \<and> truthy_str (apiVersion p)"
  then show "process env c (Some p) = handle_pragma (c\<lparr>current_resource := Some p\<rparr>) p"
    by (simp add: process_def Let_def)
next
  fix c2 :: Config and r :: resource
  assume h: "override_source c2 (rkey p) = Some S \<and> rkey r = rkey p"
  then show o: "apply_override c2 r = r\<lparr>location := S\<rparr>"
    by (simp add: apply_override_source)
  show "load_one env c2 r =
              (if excluded env r then
                 Inr (Return (log DEBUG (LoadAllSkip (r\<lparr>location := S\<rparr>) (ambassador_id env)
                                           (as_list (allowed_ids r))) c2))
               else
                 (case process env (log DEBUG (LoadAllAt (r\<lparr>location := S\<rparr>) S) c2)
                         (Some (r\<lparr>location := S\<rparr>)) of
                    Inl e \<Rightarrow> Inl e
                  | Inr (c3, rc) \<Rightarrow>
                      if ok rc then Inr (Next c3)
                      else (case post_error c3 rc (Some (r\<lparr>location := S\<rparr>)) of
                              Inl e \<Rightarrow> Inl e
                            | Inr c4 \<Rightarrow> Inr (Next c4))))"
  proof (cases "excluded env r")
    case True
    then show ?thesis
      using load_one_excluded [OF True, of c2] unfolding o by simp
  next
    case False
    then show ?thesis
      using load_one_admitted [OF False, of c2] unfolding o by simp
  qed
qed

theorem pragma_source_overrides_location_witness:
  "(\<exists>c1. process sample_env sample_config (Some sample_pragma) =
            Inr (c1, OK ''handled pragma object'')
       \<and> override_source c1 ''a.yaml.1'' = Some (JStr ''foo'')
       \<and> schemas c1 = [] \<and> config c1 = [] \<and> sources c1 = [] \<and> errors c1 = []
       \<and> apply_override c1 sample_mapping = sample_mapping\<lparr>location := JStr ''foo''\<rparr>)
   \<and> (\<exists>c. load_all sample_env sample_config [sample_pragma, sample_mapping] = Inr c
         \<and> map_of (sources c) ''a.yaml.1'' = Some (sample_mapping\<lparr>location := JStr ''foo''\<rparr>)
         \<and> stored c ''mappings'' ''m1'' = Some (sample_mapping\<lparr>location := JStr ''foo''\<rparr>))"
proof -
  note t = pragma_source_overrides_location [where p = sample_pragma and S = "JStr ''foo''"
      and env = sample_env and c = "sample_config\<lparr>current_resource := Some sample_pragma\<rparr>"]
  note u = pragma_source_overrides_location [where p = sample_pragma and S = "JStr ''foo''"
      and env = sample_env and c = sample_config]
  have s: "map_of (payload sample_pragma) ''source'' = Some (JStr ''foo'')"
    by (simp add: sample_pragma_def)
  have k: "kind sample_pragma = Some ''Pragma'' \<and> truthy_str (apiVersion sample_pragma)"
    by (simp add: sample_pragma_def truthy_str_def)
  have rk: "rkey sample_pragma = ''a.yaml.1''" "rkey sample_mapping = rkey sample_pragma"
    by (simp_all add: sample_pragma_def sample_mapping_def)
  from t s obtain c1 where
    c1: "handle_pragma (sample_config\<lparr>current_resource := Some sample_pragma\<rparr>) sample_pragma =
           Inr (c1, OK ''handled pragma object'')"
      "override_source c1 (rkey sample_pragma) = Some (JStr ''foo'')"
      "schemas c1 = schemas (sample_config\<lparr>current_resource := Some sample_pragma\<rparr>)"
      "config c1 = config (sample_config\<lparr>current_resource := Some sample_pragma\<rparr>)"
      "sources c1 = sources (sample_config\<lparr>current_resource := Some sample_pragma\<rparr>)"
      "errors c1 = errors (sample_config\<lparr>current_resource := Some sample_pragma\<rparr>)"
    by blast
  from u s k have p: "process sample_env sample_config (Some sample_pragma) =
      handle_pragma (sample_config\<lparr>current_resource := Some sample_pragma\<rparr>) sample_pragma"
    by blast
  from u s c1(2) rk(2) have o: "apply_override c1 sample_mapping = sample_mapping\<lparr>location := JStr ''foo''\<rparr>"
    by blast
  have a: "\<exists>c1. process sample_env sample_config (Some sample_pragma) =
            Inr (c1, OK ''handled pragma object'')
       \<and> override_source c1 ''a.yaml.1'' = Some (JStr ''foo'')
       \<and> schemas c1 = [] \<and> config c1 = [] \<and> sources c1 = [] \<and> errors c1 = []
       \<and> apply_override c1 sample_mapping = sample_mapping\<lparr>location := JStr ''foo''\<rparr>"
    using p c1 o rk(1) by (simp add: sample_config_def)
  have b: "\<exists>c. load_all sample_env sample_config [sample_pragma, sample_mapping] = Inr c
         \<and> map_of (sources c) ''a.yaml.1'' = Some (sample_mapping\<lparr>location := JStr ''foo''\<rparr>)
         \<and> stored c ''mappings'' ''m1'' = Some (sample_mapping\<lparr>location := JStr ''foo''\<rparr>)"
    by (simp add: model_defs sample_defs)
  from a b show ?thesis by blast
qed

end
